theory Spec2Isabelle
  imports Complex_Main
begin

section \<open>Python values\<close>

text \<open>
  The client reads every controller answer through \<^verbatim>\<open>response.json()\<close>, so the values
  it handles are parsed JSON documents. A dict is kept as an association list read with
  \<open>map_of\<close>; \<open>JNull\<close> is Python's \<^verbatim>\<open>None\<close>.
\<close>

datatype json =
    JNull
  | JBool bool
  | JNum rat
  | JStr string
  | JArr "json list"
  | JObj "(string \<times> json) list"

datatype exc =
    HTTPError
  | RequestTimeout
  | ConnectionError
  | JSONDecodeError
  | KeyError
  | TypeError
  | AttributeError
  | ValueError
  | EOFError
  | KeyboardInterrupt

text \<open>\<^verbatim>\<open>except Exception\<close> catches everything but \<^verbatim>\<open>KeyboardInterrupt\<close>.\<close>

definition is_Exception :: "exc \<Rightarrow> bool" where
  "is_Exception e = (e \<noteq> KeyboardInterrupt)"

text \<open>
  \<^verbatim>\<open>except requests.exceptions.RequestException\<close>: the exceptions of the requests
  library, among them the one \<^verbatim>\<open>response.json()\<close> raises on a body that is not JSON.
\<close>

definition is_RequestException :: "exc \<Rightarrow> bool" where
  "is_RequestException e = (e \<in> {HTTPError, RequestTimeout, ConnectionError, JSONDecodeError})"

text \<open>Truth value of a Python object, as \<^verbatim>\<open>if x:\<close> reads it.\<close>

fun truthy :: "json \<Rightarrow> bool" where
  "truthy JNull = False"
| "truthy (JBool b) = b"
| "truthy (JNum n) = (n \<noteq> 0)"
| "truthy (JStr s) = (s \<noteq> [])"
| "truthy (JArr xs) = (xs \<noteq> [])"
| "truthy (JObj kvs) = (kvs \<noteq> [])"

text \<open>\<^verbatim>\<open>x == 'literal'\<close>: only a string equals a string.\<close>

definition eq_str :: "json \<Rightarrow> string \<Rightarrow> bool" where
  "eq_str v s = (v = JStr s)"

text \<open>\<^verbatim>\<open>x == False\<close>: Python's \<^verbatim>\<open>False\<close> equals the number zero as well.\<close>

definition eq_False :: "json \<Rightarrow> bool" where
  "eq_False v = (v = JBool False \<or> v = JNum 0)"

text \<open>\<^verbatim>\<open>d.get(k, default)\<close> exists on dicts only.\<close>

fun py_get :: "json \<Rightarrow> string \<Rightarrow> json \<Rightarrow> exc + json" where
  "py_get (JObj kvs) k d = Inr (case map_of kvs k of None \<Rightarrow> d | Some v \<Rightarrow> v)"
| "py_get _ k d = Inl AttributeError"

text \<open>\<^verbatim>\<open>d["k"]\<close> with a string key.\<close>

fun py_item :: "json \<Rightarrow> string \<Rightarrow> exc + json" where
  "py_item (JObj kvs) k = (case map_of kvs k of None \<Rightarrow> Inl KeyError | Some v \<Rightarrow> Inr v)"
| "py_item _ k = Inl TypeError"

text \<open>\<^verbatim>\<open>'k' in v\<close> with a string key: a key of a dict, an item of a list, a substring.\<close>

fun substring :: "string \<Rightarrow> string \<Rightarrow> bool" where
  "substring k [] = (k = [])"
| "substring k (c # cs) = (take (length k) (c # cs) = k \<or> substring k cs)"

fun py_contains :: "json \<Rightarrow> string \<Rightarrow> exc + bool" where
  "py_contains (JObj kvs) k = Inr (map_of kvs k \<noteq> None)"
| "py_contains (JArr xs) k = Inr (JStr k \<in> set xs)"
| "py_contains (JStr s) k = Inr (substring k s)"
| "py_contains _ k = Inl TypeError"

text \<open>
  The elements a \<^verbatim>\<open>for x in v\<close> loop visits: the items of a list, the keys of a dict
  (in the order of their first occurrence), the characters of a string.
\<close>

fun py_iter :: "json \<Rightarrow> exc + json list" where
  "py_iter (JArr xs) = Inr xs"
| "py_iter (JObj kvs) = Inr (map JStr (rev (remdups (rev (map fst kvs)))))"
| "py_iter (JStr s) = Inr (map (\<lambda>c. JStr [c]) s)"
| "py_iter _ = Inl TypeError"

text \<open>\<^verbatim>\<open>x[:8]\<close> inside the progress messages: strings and lists can be sliced.\<close>

fun py_sliceable :: "json \<Rightarrow> bool" where
  "py_sliceable (JStr s) = True"
| "py_sliceable (JArr xs) = True"
| "py_sliceable _ = False"

subsection \<open>Strings\<close>

definition startswith :: "string \<Rightarrow> string \<Rightarrow> bool" where
  "startswith s p = (take (length p) s = p)"

text \<open>\<^verbatim>\<open>s.split(sep)\<close> for a one-character separator.\<close>

fun split_acc :: "char \<Rightarrow> string \<Rightarrow> string \<Rightarrow> string list" where
  "split_acc sep cur [] = [rev cur]"
| "split_acc sep cur (c # cs) =
     (if c = sep then rev cur # split_acc sep [] cs else split_acc sep (c # cur) cs)"

definition split :: "char \<Rightarrow> string \<Rightarrow> string list" where
  "split sep s = split_acc sep [] s"

text \<open>\<^verbatim>\<open>s.rsplit(sep, 1)[0]\<close>: what stands before the last separator, or all of \<open>s\<close>.\<close>

definition rsplit1_head :: "char \<Rightarrow> string \<Rightarrow> string" where
  "rsplit1_head sep s =
     (if sep \<in> set s then rev (tl (dropWhile (\<lambda>c. c \<noteq> sep) (rev s))) else s)"

text \<open>
  White space as \<^verbatim>\<open>str.strip()\<close> and \<^verbatim>\<open>int()\<close> see it, among the characters below 256: the
  codes 9 to 13, 28 to 32, 133 and 160.
\<close>

definition is_space :: "char \<Rightarrow> bool" where
  "is_space c =
     (let n = (of_char c :: nat)
      in (9 \<le> n \<and> n \<le> 13) \<or> (28 \<le> n \<and> n \<le> 32) \<or> n = 133 \<or> n = 160)"

definition strip :: "string \<Rightarrow> string" where
  "strip s = rev (dropWhile is_space (rev (dropWhile is_space s)))"

definition digit_val :: "char \<Rightarrow> int option" where
  "digit_val c =
     (let n = (of_char c :: nat)
      in if 48 \<le> n \<and> n \<le> 57 then Some (int n - 48) else None)"

fun digits_acc :: "int \<Rightarrow> bool \<Rightarrow> string \<Rightarrow> int option" where
  "digits_acc n after_digit [] = (if after_digit then Some n else None)"
| "digits_acc n after_digit (c # cs) =
     (if c = CHR ''_'' then (if after_digit then digits_acc n False cs else None)
      else case digit_val c of
             None \<Rightarrow> None
           | Some d \<Rightarrow> digits_acc (10 * n + d) True cs)"

text \<open>
  \<^verbatim>\<open>int(s)\<close> on a string: surrounding white space, an optional sign, then decimal digits,
  single underscores allowed between digits; CPython refuses more than 4300 digits.
\<close>

definition py_int :: "string \<Rightarrow> exc + int" where
  "py_int s =
     (let t = strip s;
          (neg, ds) = (case t of
                         c # cs \<Rightarrow> if c = CHR ''-'' then (True, cs)
                                   else if c = CHR ''+'' then (False, cs) else (False, t)
                       | [] \<Rightarrow> (False, t))
      in case digits_acc 0 False ds of
           None \<Rightarrow> Inl ValueError
         | Some n \<Rightarrow>
             if 4300 < length (filter (\<lambda>c. c \<noteq> CHR ''_'') ds) then Inl ValueError
             else Inr (if neg then - n else n))"

section \<open>HTTP requests and the controller\<close>

datatype meth = GET | POST | DELETE

text \<open>
  A request as the client hands it to the requests library. The URL is kept as the list
  of the pieces its f-string joins, so that no rendering of a value has to be chosen;
  \<open>req_headers\<close> is \<open>None\<close> where the call passes no headers. \<open>req_timeout\<close> is in seconds.
\<close>

record request =
  req_meth :: meth
  req_url :: "json list"
  req_headers :: "(string \<times> json) list option"
  req_json :: "json option"
  req_auth :: "(json \<times> json) option"
  req_verify :: bool
  req_timeout :: nat

text \<open>
  A response: its status code, its text, and what \<^verbatim>\<open>response.json()\<close> makes of the text
  (\<open>None\<close> when the text is not JSON).
\<close>

record response =
  status_code :: int
  resp_text :: string
  json_body :: "json option"

datatype outcome = Response response | Raises exc

text \<open>
  The controller is a parameter of the model: a machine over a state of its own that
  answers a request with an outcome, the time the request took (in milliseconds) and its
  next state.
\<close>

type_synonym 'c server = "'c \<Rightarrow> request \<Rightarrow> outcome \<times> nat \<times> 'c"

text \<open>The calls of the delete operations, in the order the driver makes them.\<close>

datatype call = DeleteReservation string string | DeleteSite string

text \<open>
  The client object (\<open>base_url\<close>, \<open>username\<close>, \<open>password\<close>, \<open>token\<close>, \<open>headers\<close>) and the
  world around it: the controller's state, the clock read by \<^verbatim>\<open>time.time()\<close> (in
  milliseconds), the requests sent so far, and the delete calls made so far. The base URL
  is an f-string over a value of the configuration file, and is kept as its pieces too.
\<close>

record 'c state =
  base_url :: "json list"
  username :: json
  password :: json
  token :: json
  headers :: "(string \<times> json) list"
  ctrl :: 'c
  clock :: nat
  reqs :: "request list"
  calls :: "call list"

type_synonym ('c, 'a) prog = "'c state \<Rightarrow> (exc + 'a) \<times> 'c state"

definition ret :: "'a \<Rightarrow> ('c, 'a) prog" where
  "ret x = (\<lambda>s. (Inr x, s))"

definition raise :: "exc \<Rightarrow> ('c, 'a) prog" where
  "raise e = (\<lambda>s. (Inl e, s))"

definition bnd :: "('c, 'a) prog \<Rightarrow> ('a \<Rightarrow> ('c, 'b) prog) \<Rightarrow> ('c, 'b) prog" where
  "bnd m f = (\<lambda>s. case m s of (Inl e, s') \<Rightarrow> (Inl e, s') | (Inr x, s') \<Rightarrow> f x s')"

text \<open>Reading a field of the client.\<close>

definition gets :: "('c state \<Rightarrow> 'a) \<Rightarrow> ('c, 'a) prog" where
  "gets f = (\<lambda>s. (Inr (f s), s))"

text \<open>A pure step that may raise.\<close>

definition lift :: "exc + 'a \<Rightarrow> ('c, 'a) prog" where
  "lift r = (\<lambda>s. (r, s))"

text \<open>\<^verbatim>\<open>try: m except <those e with h e>: handler\<close>.\<close>

definition try_except :: "('c, 'a) prog \<Rightarrow> (exc \<Rightarrow> bool) \<Rightarrow> (exc \<Rightarrow> ('c, 'a) prog) \<Rightarrow> ('c, 'a) prog" where
  "try_except m h handler =
     (\<lambda>s. case m s of
            (Inl e, s') \<Rightarrow> if h e then handler e s' else (Inl e, s')
          | (Inr x, s') \<Rightarrow> (Inr x, s'))"

text \<open>\<^verbatim>\<open>time.sleep\<close>, in milliseconds.\<close>

definition sleep :: "nat \<Rightarrow> ('c, unit) prog" where
  "sleep ms = (\<lambda>s. (Inr (), s\<lparr>clock := clock s + ms\<rparr>))"

text \<open>Sending a request: the controller moves, time passes, the request is recorded.\<close>

definition http :: "'c server \<Rightarrow> request \<Rightarrow> ('c, response) prog" where
  "http srv rq =
     (\<lambda>s. case srv (ctrl s) rq of
            (out, d, c') \<Rightarrow>
              (let s' = s\<lparr>ctrl := c', clock := clock s + d, reqs := reqs s @ [rq]\<rparr>
               in case out of Response r \<Rightarrow> (Inr r, s') | Raises e \<Rightarrow> (Inl e, s')))"

text \<open>\<^verbatim>\<open>requests.get(url, headers=self.headers, verify=False, timeout=30)\<close> and its siblings.\<close>

definition requests_get :: "'c server \<Rightarrow> json list \<Rightarrow> ('c, response) prog" where
  "requests_get srv u =
     bnd (gets headers) (\<lambda>h.
       http srv \<lparr>req_meth = GET, req_url = u, req_headers = Some h, req_json = None,
                 req_auth = None, req_verify = False, req_timeout = 30\<rparr>)"

definition requests_post :: "'c server \<Rightarrow> json list \<Rightarrow> json \<Rightarrow> ('c, response) prog" where
  "requests_post srv u payload =
     bnd (gets headers) (\<lambda>h.
       http srv \<lparr>req_meth = POST, req_url = u, req_headers = Some h, req_json = Some payload,
                 req_auth = None, req_verify = False, req_timeout = 30\<rparr>)"

definition requests_delete :: "'c server \<Rightarrow> json list \<Rightarrow> ('c, response) prog" where
  "requests_delete srv u =
     bnd (gets headers) (\<lambda>h.
       http srv \<lparr>req_meth = DELETE, req_url = u, req_headers = Some h, req_json = None,
                 req_auth = None, req_verify = False, req_timeout = 30\<rparr>)"

text \<open>An f-string that starts with \<^verbatim>\<open>{self.base_url}\<close>.\<close>

definition endpoint :: "json list \<Rightarrow> ('c, json list) prog" where
  "endpoint pieces = bnd (gets base_url) (\<lambda>b. ret (b @ pieces))"

text \<open>\<^verbatim>\<open>response.json()\<close> and \<^verbatim>\<open>response.raise_for_status()\<close>.\<close>

definition response_json :: "response \<Rightarrow> exc + json" where
  "response_json r = (case json_body r of None \<Rightarrow> Inl JSONDecodeError | Some v \<Rightarrow> Inr v)"

definition raise_for_status :: "response \<Rightarrow> exc + unit" where
  "raise_for_status r =
     (if 400 \<le> status_code r \<and> status_code r < 600 then Inl HTTPError else Inr ())"

section \<open>The task poller\<close>

text \<open>
  What \<open>wait_for_task\<close> makes of the body of a 200 answer: \<open>Some True\<close> and \<open>Some False\<close>
  are its two \<^verbatim>\<open>return\<close>s, \<open>None\<close> is a task still in progress.
\<close>

definition inspect_task :: "json \<Rightarrow> exc + bool option" where
  "inspect_task task_data =
     (case py_get task_data ''status'' (JStr '''') of
        Inl e \<Rightarrow> Inl e
      | Inr status \<Rightarrow>
          if eq_str status ''SUCCESS'' then
            (case py_get task_data ''bapiError'' JNull of
               Inl e \<Rightarrow> Inl e
             | Inr bapi_error \<Rightarrow>
                 if truthy bapi_error then Inr (Some False)
                 else
                   (case py_get task_data ''bapiSyncResponseJson'' (JObj []) of
                      Inl e \<Rightarrow> Inl e
                    | Inr sync_response \<Rightarrow>
                        (case sync_response of
                           JObj kvs \<Rightarrow>
                             (case py_get sync_response ''status'' JNull of
                                Inl e \<Rightarrow> Inl e
                              | Inr st \<Rightarrow>
                                  if eq_str st ''false'' \<or> eq_False st then Inr (Some False)
                                  else Inr (Some True))
                         | _ \<Rightarrow> Inr (Some True))))
          else if eq_str status ''FAILURE'' \<or> eq_str status ''FAILED'' then Inr (Some False)
          else
            (case py_get task_data ''isError'' JNull of
               Inl e \<Rightarrow> Inl e
             | Inr is_error \<Rightarrow>
                 if truthy is_error then Inr (Some False)
                 else
                   (case py_get task_data ''endTime'' JNull of
                      Inl e \<Rightarrow> Inl e
                    | Inr end_time \<Rightarrow>
                        (case py_get task_data ''endTimeEpoch'' JNull of
                           Inl e \<Rightarrow> Inl e
                         | Inr end_epoch \<Rightarrow>
                             if truthy end_time \<or> truthy end_epoch then
                               (if eq_str status ''SUCCESS'' \<or> \<not> truthy is_error
                                then Inr (Some True) else Inr (Some False))
                             else Inr None))))"

text \<open>
  The body of the \<^verbatim>\<open>try\<close> inside the loop, up to the point where it returns or goes to
  sleep: \<open>Some b\<close> is \<^verbatim>\<open>return b\<close>, \<open>None\<close> is the way to \<^verbatim>\<open>time.sleep(check_interval)\<close>.
\<close>

definition poll_body :: "'c server \<Rightarrow> json list \<Rightarrow> ('c, bool option) prog" where
  "poll_body srv u =
     bnd (requests_get srv u) (\<lambda>response.
       if status_code response = 404 then ret (Some True)
       else if status_code response = 200 then
         bnd (lift (response_json response)) (\<lambda>task_data. lift (inspect_task task_data))
       else ret None)"

text \<open>One turn of the loop: every \<^verbatim>\<open>Exception\<close> is caught and leads to the sleep as well.\<close>

definition poll_once :: "'c server \<Rightarrow> json list \<Rightarrow> ('c, bool option) prog" where
  "poll_once srv u = try_except (poll_body srv u) is_Exception (\<lambda>e. ret None)"

definition check_interval :: nat where
  "check_interval = 10"

text \<open>\<^verbatim>\<open>time.time() - start_time < timeout\<close>, the clock in milliseconds, the timeout in seconds.\<close>

definition in_time :: "nat \<Rightarrow> int \<Rightarrow> 'c state \<Rightarrow> bool" where
  "in_time start_time timeout s = (int (clock s) - int start_time < 1000 * timeout)"

function wait_loop :: "'c server \<Rightarrow> json list \<Rightarrow> nat \<Rightarrow> int \<Rightarrow> ('c, bool) prog" where
  "wait_loop srv u start_time timeout s =
     (if in_time start_time timeout s then
        (case poll_once srv u s of
           (Inl e, s') \<Rightarrow> (Inl e, s')
         | (Inr (Some b), s') \<Rightarrow> (Inr b, s')
         | (Inr None, s') \<Rightarrow>
             wait_loop srv u start_time timeout (snd (sleep (1000 * check_interval) s')))
      else (Inr True, s))"
  by pat_completeness auto
termination
  apply (relation "measure (\<lambda>(srv, u, start_time, timeout, s).
                   nat (1000 * timeout - (int (clock s) - int start_time)))")
   apply simp
  subgoal premises prems for srv u start_time timeout s x y xa
  proof -
    have "snd (poll_once srv u s) = snd (requests_get srv u s)"
      by (simp add: poll_once_def poll_body_def try_except_def bnd_def ret_def lift_def
            split: prod.splits sum.splits)
    moreover have "clock s \<le> clock (snd (requests_get srv u s))"
      by (simp add: requests_get_def bnd_def gets_def http_def Let_def
            split: prod.splits outcome.splits)
    ultimately have "clock s \<le> clock (snd (poll_once srv u s))"
      by simp
    moreover have "y = snd (poll_once srv u s)"
      using prems(2,3) by (metis snd_conv)
    ultimately show ?thesis
      using prems(1) by (simp add: sleep_def in_time_def check_interval_def)
  qed
  done

declare wait_loop.simps [simp del]

text \<open>The URL \<open>wait_for_task\<close> polls.\<close>

definition task_status_url :: "json list \<Rightarrow> json \<Rightarrow> json \<Rightarrow> exc + json list" where
  "task_status_url base task_id task_url =
     (if truthy task_url then
        (case task_url of
           JStr t \<Rightarrow> if \<not> startswith t ''http'' then Inr (base @ [task_url]) else Inr [task_url]
         | _ \<Rightarrow> Inl AttributeError)
      else Inr (base @ [JStr ''/dna/intent/api/v1/dnacaap/management/execution-status/'',
                        task_id]))"

definition wait_for_task :: "'c server \<Rightarrow> json \<Rightarrow> json \<Rightarrow> int \<Rightarrow> ('c, bool) prog" where
  "wait_for_task srv task_id task_url timeout =
     bnd (gets base_url) (\<lambda>base.
     bnd (lift (task_status_url base task_id task_url)) (\<lambda>u.
     bnd (gets clock) (\<lambda>start_time.
       wait_loop srv u start_time timeout)))"

section \<open>The client\<close>

text \<open>\<^verbatim>\<open>self.headers[k] = v\<close>.\<close>

fun dict_set :: "string \<Rightarrow> json \<Rightarrow> (string \<times> json) list \<Rightarrow> (string \<times> json) list" where
  "dict_set k v [] = [(k, v)]"
| "dict_set k v (p # ps) = (if fst p = k then (k, v) # ps else p # dict_set k v ps)"

definition set_token :: "json \<Rightarrow> ('c, unit) prog" where
  "set_token t =
     (\<lambda>s. (Inr (), s\<lparr>token := t, headers := dict_set ''X-Auth-Token'' t (headers s)\<rparr>))"

definition authenticate :: "'c server \<Rightarrow> ('c, json) prog" where
  "authenticate srv =
     bnd (endpoint [JStr ''/dna/system/api/v1/auth/token'']) (\<lambda>auth_url.
     bnd (gets username) (\<lambda>u.
     bnd (gets password) (\<lambda>p.
     bnd (http srv \<lparr>req_meth = POST, req_url = auth_url, req_headers = None, req_json = None,
                    req_auth = Some (u, p), req_verify = False, req_timeout = 30\<rparr>) (\<lambda>response.
     bnd (lift (raise_for_status response)) (\<lambda>_.
     bnd (lift (response_json response)) (\<lambda>body.
     bnd (lift (py_item body ''Token'')) (\<lambda>t.
     bnd (set_token t) (\<lambda>_.
       ret t))))))))"

subsection \<open>Lookups\<close>

text \<open>The loop of \<open>get_site_by_name\<close>: the first site whose name is \<open>site_name\<close>.\<close>

fun find_site :: "json list \<Rightarrow> string \<Rightarrow> exc + json" where
  "find_site [] site_name = Inr JNull"
| "find_site (site # sites) site_name =
     (case py_item site ''name'' of
        Inl e \<Rightarrow> Inl e
      | Inr n \<Rightarrow> if eq_str n site_name then Inr site else find_site sites site_name)"

definition get_site_by_name :: "'c server \<Rightarrow> string \<Rightarrow> ('c, json) prog" where
  "get_site_by_name srv site_name =
     bnd (endpoint [JStr ''/dna/intent/api/v1/site'']) (\<lambda>url.
     bnd (requests_get srv url) (\<lambda>response.
     bnd (lift (response_json response)) (\<lambda>body.
     bnd (lift (py_item body ''response'')) (\<lambda>sites.
     bnd (lift (py_iter sites)) (\<lambda>xs.
       lift (find_site xs site_name))))))"

text \<open>\<^verbatim>\<open>len(parts) >= 2 and parts[-2] == parent_name\<close>.\<close>

definition parent_matches :: "string list \<Rightarrow> string \<Rightarrow> bool" where
  "parent_matches parts parent_name =
     (2 \<le> length parts \<and> parts ! (length parts - 2) = parent_name)"

text \<open>
  The loop of \<open>get_site_by_name_and_parent\<close>. \<^verbatim>\<open>hierarchy.split('/')\<close> exists on strings
  only.
\<close>

fun find_site_under :: "json list \<Rightarrow> string \<Rightarrow> string \<Rightarrow> exc + json" where
  "find_site_under [] site_name parent_name = Inr JNull"
| "find_site_under (site # sites) site_name parent_name =
     (case py_item site ''name'' of
        Inl e \<Rightarrow> Inl e
      | Inr n \<Rightarrow>
          if eq_str n site_name then
            (case py_get site ''siteNameHierarchy'' (JStr '''') of
               Inl e \<Rightarrow> Inl e
             | Inr (JStr hierarchy) \<Rightarrow>
                 if parent_matches (split CHR ''/'' hierarchy) parent_name then Inr site
                 else find_site_under sites site_name parent_name
             | Inr _ \<Rightarrow> Inl AttributeError)
          else find_site_under sites site_name parent_name)"

definition get_site_by_name_and_parent :: "'c server \<Rightarrow> string \<Rightarrow> string \<Rightarrow> ('c, json) prog" where
  "get_site_by_name_and_parent srv site_name parent_name =
     bnd (endpoint [JStr ''/dna/intent/api/v1/site'']) (\<lambda>url.
     bnd (requests_get srv url) (\<lambda>response.
     bnd (lift (response_json response)) (\<lambda>body.
     bnd (lift (py_item body ''response'')) (\<lambda>sites.
     bnd (lift (py_iter sites)) (\<lambda>xs.
       lift (find_site_under xs site_name parent_name))))))"

text \<open>
  The loop shared by \<open>get_global_pool_by_name\<close> (key \<open>ipPoolName\<close>) and
  \<open>get_reservation_by_name\<close> (key \<open>groupName\<close>): the first item whose \<open>key\<close> is \<open>name\<close>.
\<close>

fun find_named :: "string \<Rightarrow> json list \<Rightarrow> string \<Rightarrow> exc + json" where
  "find_named key [] name = Inr JNull"
| "find_named key (x # xs) name =
     (case py_get x key JNull of
        Inl e \<Rightarrow> Inl e
      | Inr n \<Rightarrow> if eq_str n name then Inr x else find_named key xs name)"

definition get_global_pool_by_name :: "'c server \<Rightarrow> string \<Rightarrow> ('c, json) prog" where
  "get_global_pool_by_name srv pool_name =
     bnd (endpoint [JStr ''/dna/intent/api/v1/global-pool'']) (\<lambda>url.
     bnd (requests_get srv url) (\<lambda>response.
     bnd (lift (response_json response)) (\<lambda>body.
     bnd (lift (py_item body ''response'')) (\<lambda>pools.
     bnd (lift (py_iter pools)) (\<lambda>xs.
       lift (find_named ''ipPoolName'' xs pool_name))))))"

text \<open>The \<^verbatim>\<open>try\<close> block of \<open>get_reservation_by_name\<close>.\<close>

definition reservations_of :: "'c server \<Rightarrow> json \<Rightarrow> string \<Rightarrow> ('c, json) prog" where
  "reservations_of srv site_id reservation_name =
     bnd (endpoint [JStr ''/dna/intent/api/v1/reserve-ip-subpool?siteId='', site_id]) (\<lambda>url.
     bnd (requests_get srv url) (\<lambda>response.
       if status_code response = 200 then
         bnd (lift (response_json response)) (\<lambda>body.
         bnd (lift (py_get body ''response'' (JArr []))) (\<lambda>reservations.
         bnd (lift (py_iter reservations)) (\<lambda>xs.
           lift (find_named ''groupName'' xs reservation_name))))
       else ret JNull))"

definition get_reservation_by_name :: "'c server \<Rightarrow> string \<Rightarrow> string \<Rightarrow> ('c, json) prog" where
  "get_reservation_by_name srv site_name reservation_name =
     bnd (get_site_by_name srv site_name) (\<lambda>site.
       if \<not> truthy site then ret JNull
       else
         bnd (lift (py_item site ''id'')) (\<lambda>site_id.
           try_except (reservations_of srv site_id reservation_name) is_Exception
             (\<lambda>e. ret JNull)))"

subsection \<open>Waiting for the task of a request\<close>

text \<open>
  The block that \<open>create_area\<close>, \<open>create_building\<close>, \<open>create_floor\<close>, \<open>delete_site\<close>,
  \<open>delete_reservation\<close> and \<open>delete_global_pool\<close> all run on the body of the answer:
  \<^verbatim>\<open>
  task_id = result.get('executionId')
  task_url = result.get('executionStatusUrl')
  if task_id:
      print(f"  Waiting for task {task_id[:8]}...")
      if self.wait_for_task(task_id, task_url): ...
      else: ...; return None
  else: ...
  \<close>
  \<open>False\<close> is the way to \<^verbatim>\<open>return None\<close>.
\<close>

definition sliced :: "json \<Rightarrow> exc + unit" where
  "sliced v = (if py_sliceable v then Inr () else Inl TypeError)"

definition await_task :: "'c server \<Rightarrow> json \<Rightarrow> ('c, bool) prog" where
  "await_task srv result =
     bnd (lift (py_get result ''executionId'' JNull)) (\<lambda>task_id.
     bnd (lift (py_get result ''executionStatusUrl'' JNull)) (\<lambda>task_url.
       if truthy task_id then
         bnd (lift (sliced task_id)) (\<lambda>_. wait_for_task srv task_id task_url 600)
       else ret True))"

text \<open>
  The \<^verbatim>\<open>elif task_url:\<close> branch of \<open>create_ip_pool\<close> and \<open>reserve_ip_subpool\<close>: one look
  at the status URL; \<open>True\<close> when its \<open>status\<close> is \<open>SUCCESS\<close>.
\<close>

definition check_status_once :: "'c server \<Rightarrow> json \<Rightarrow> ('c, bool) prog" where
  "check_status_once srv task_url =
     bnd (sleep 2000) (\<lambda>_.
     bnd (endpoint [task_url]) (\<lambda>status_url.
     bnd (requests_get srv status_url) (\<lambda>status_resp.
     bnd (lift (response_json status_resp)) (\<lambda>status.
     bnd (lift (py_get status ''status'' JNull)) (\<lambda>st.
       ret (eq_str st ''SUCCESS''))))))"

subsection \<open>Creating\<close>

text \<open>\<^verbatim>\<open>subnet, prefix = cidr.split('/')\<close> and the payload built from the two.\<close>

definition ip_pool_payload :: "string \<Rightarrow> string \<Rightarrow> exc + json" where
  "ip_pool_payload name cidr =
     (case split CHR ''/'' cidr of
        [subnet, prefix] \<Rightarrow>
          (case py_int prefix of
             Inl e \<Rightarrow> Inl e
           | Inr n \<Rightarrow>
               Inr (JObj [(''name'', JStr name),
                          (''poolType'', JStr ''Generic''),
                          (''addressSpace'',
                             JObj [(''subnet'', JStr subnet),
                                   (''prefixLength'', JNum (of_int n))])]))
      | _ \<Rightarrow> Inl ValueError)"

definition create_ip_pool :: "'c server \<Rightarrow> string \<Rightarrow> string \<Rightarrow> ('c, json) prog" where
  "create_ip_pool srv name cidr =
     bnd (get_global_pool_by_name srv name) (\<lambda>existing.
       if truthy existing then ret existing
       else
         bnd (lift (ip_pool_payload name cidr)) (\<lambda>payload.
         bnd (endpoint [JStr ''/dna/intent/api/v1/global-pool'']) (\<lambda>url.
         bnd (requests_post srv url payload) (\<lambda>response.
         bnd (lift (raise_for_status response)) (\<lambda>_.
         bnd (lift (response_json response)) (\<lambda>result.
         bnd (lift (py_get result ''executionId'' JNull)) (\<lambda>task_id.
         bnd (lift (py_get result ''executionStatusUrl'' JNull)) (\<lambda>task_url.
           if truthy task_id then
             bnd (lift (sliced task_id)) (\<lambda>_.
             bnd (wait_for_task srv task_id task_url 600) (\<lambda>ok.
               if ok then
                 bnd (sleep 5000) (\<lambda>_.
                 bnd (get_global_pool_by_name srv name) (\<lambda>created_pool.
                   if truthy created_pool then ret created_pool else ret JNull))
               else ret JNull))
           else if truthy task_url then
             bnd (check_status_once srv task_url) (\<lambda>ok.
               if ok then bnd (sleep 3000) (\<lambda>_. get_global_pool_by_name srv name)
               else ret JNull)
           else ret result))))))))"

definition area_payload :: "string \<Rightarrow> string \<Rightarrow> json" where
  "area_payload name parent_name =
     JObj [(''type'', JStr ''area''),
           (''site'', JObj [(''area'', JObj [(''name'', JStr name),
                                             (''parentName'', JStr parent_name)])])]"

definition create_area :: "'c server \<Rightarrow> string \<Rightarrow> string \<Rightarrow> ('c, json) prog" where
  "create_area srv name parent_name =
     bnd (get_site_by_name srv name) (\<lambda>existing.
       if truthy existing then ret existing
       else
         bnd (endpoint [JStr ''/dna/intent/api/v1/site'']) (\<lambda>url.
         bnd (requests_post srv url (area_payload name parent_name)) (\<lambda>response.
         bnd (lift (raise_for_status response)) (\<lambda>_.
         bnd (lift (response_json response)) (\<lambda>result.
         bnd (await_task srv result) (\<lambda>ok.
           if ok then bnd (sleep 1000) (\<lambda>_. ret result) else ret JNull))))))"

definition building_payload :: "string \<Rightarrow> string \<Rightarrow> rat \<Rightarrow> rat \<Rightarrow> string \<Rightarrow> string \<Rightarrow> json" where
  "building_payload name parent_name latitude longitude address country =
     JObj [(''type'', JStr ''building''),
           (''site'', JObj [(''building'',
              JObj [(''name'', JStr name),
                    (''parentName'', JStr parent_name),
                    (''latitude'', JNum latitude),
                    (''longitude'', JNum longitude),
                    (''address'', JStr address),
                    (''country'', JStr country)])])]"

definition create_building ::
  "'c server \<Rightarrow> string \<Rightarrow> string \<Rightarrow> rat \<Rightarrow> rat \<Rightarrow> string \<Rightarrow> string \<Rightarrow> ('c, json) prog" where
  "create_building srv name parent_name latitude longitude address country =
     bnd (get_site_by_name srv name) (\<lambda>existing.
       if truthy existing then ret existing
       else
         bnd (endpoint [JStr ''/dna/intent/api/v1/site'']) (\<lambda>url.
         bnd (requests_post srv url
                (building_payload name parent_name latitude longitude address country))
             (\<lambda>response.
         bnd (lift (raise_for_status response)) (\<lambda>_.
         bnd (lift (response_json response)) (\<lambda>result.
         bnd (await_task srv result) (\<lambda>ok.
           if ok then bnd (sleep 2000) (\<lambda>_. ret result) else ret JNull))))))"

definition floor_payload :: "string \<Rightarrow> string \<Rightarrow> int \<Rightarrow> json" where
  "floor_payload name parent_name floor_number =
     JObj [(''type'', JStr ''floor''),
           (''site'', JObj [(''floor'',
              JObj [(''name'', JStr name),
                    (''parentName'', JStr parent_name),
                    (''rfModel'', JStr ''Cubes And Walled Offices''),
                    (''width'', JNum 100),
                    (''length'', JNum 100),
                    (''height'', JNum 10),
                    (''floorNumber'', JNum (of_int floor_number))])])]"

definition create_floor :: "'c server \<Rightarrow> string \<Rightarrow> string \<Rightarrow> int \<Rightarrow> ('c, json) prog" where
  "create_floor srv name parent_name floor_number =
     bnd (get_site_by_name_and_parent srv name parent_name) (\<lambda>existing_floor.
       if truthy existing_floor then ret existing_floor
       else
         bnd (endpoint [JStr ''/dna/intent/api/v1/site'']) (\<lambda>url.
         bnd (requests_post srv url (floor_payload name parent_name floor_number)) (\<lambda>response.
           if status_code response \<noteq> 202 then ret JNull
           else
             bnd (lift (response_json response)) (\<lambda>result.
             bnd (await_task srv result) (\<lambda>ok.
               if ok then bnd (sleep 1000) (\<lambda>_. ret result) else ret JNull)))))"

text \<open>\<^verbatim>\<open>gateway = f"{subnet.rsplit('.', 1)[0]}.1"\<close>.\<close>

definition gateway_of :: "string \<Rightarrow> string" where
  "gateway_of subnet = rsplit1_head CHR ''.'' subnet @ ''.1''"

definition reservation_payload :: "string \<Rightarrow> json \<Rightarrow> int \<Rightarrow> string \<Rightarrow> json" where
  "reservation_payload reservation_name parent_cidr prefix_length subnet =
     JObj [(''name'', JStr reservation_name),
           (''type'', JStr ''Generic''),
           (''ipv4GlobalPool'', parent_cidr),
           (''ipv4Prefix'', JBool True),
           (''ipv4PrefixLength'', JNum (of_int prefix_length)),
           (''ipv4Subnet'', JStr subnet),
           (''ipv4GateWay'', JStr (gateway_of subnet))]"

definition reserve_ip_subpool ::
  "'c server \<Rightarrow> string \<Rightarrow> string \<Rightarrow> string \<Rightarrow> string \<Rightarrow> int \<Rightarrow> ('c, json) prog" where
  "reserve_ip_subpool srv site_name reservation_name parent_pool subnet prefix_length =
     bnd (get_reservation_by_name srv site_name reservation_name) (\<lambda>existing.
       if truthy existing then ret existing
       else
         bnd (get_site_by_name srv site_name) (\<lambda>site.
           if \<not> truthy site then ret JNull
           else
             bnd (lift (py_item site ''id'')) (\<lambda>site_id.
             bnd (get_global_pool_by_name srv parent_pool) (\<lambda>parent_pool_obj.
               if \<not> truthy parent_pool_obj then ret JNull
               else
                 bnd (lift (py_get parent_pool_obj ''ipPoolCidr'' JNull)) (\<lambda>parent_cidr.
                 bnd (endpoint [JStr ''/dna/intent/api/v1/reserve-ip-subpool/'', site_id])
                     (\<lambda>url.
                 bnd (requests_post srv url
                        (reservation_payload reservation_name parent_cidr prefix_length subnet))
                     (\<lambda>response.
                 bnd (lift (raise_for_status response)) (\<lambda>_.
                 bnd (lift (response_json response)) (\<lambda>result.
                 bnd (lift (py_get result ''executionId'' JNull)) (\<lambda>task_id.
                 bnd (lift (py_get result ''executionStatusUrl'' JNull)) (\<lambda>task_url.
                 bnd (if truthy task_id then
                        bnd (lift (sliced task_id)) (\<lambda>_.
                          wait_for_task srv task_id task_url 600)
                      else if truthy task_url then check_status_once srv task_url
                      else ret True) (\<lambda>ok.
                   if ok then bnd (sleep 1000) (\<lambda>_. ret result)
                   else ret JNull))))))))))))"

subsection \<open>Deleting\<close>

definition note_call :: "call \<Rightarrow> ('c, unit) prog" where
  "note_call c = (\<lambda>s. (Inr (), s\<lparr>calls := calls s @ [c]\<rparr>))"

text \<open>\<^verbatim>\<open>result = response.json() if response.text else {}\<close>.\<close>

definition json_or_empty :: "response \<Rightarrow> exc + json" where
  "json_or_empty r = (if resp_text r \<noteq> [] then response_json r else Inr (JObj []))"

text \<open>
  One turn of the retry loop of \<open>delete_site\<close>: \<open>Some v\<close> is \<^verbatim>\<open>return v\<close>, \<open>None\<close> goes on
  to the next attempt.
\<close>

definition delete_site_try :: "'c server \<Rightarrow> json list \<Rightarrow> nat \<Rightarrow> ('c, json option) prog" where
  "delete_site_try srv url attempt =
     bnd (requests_delete srv url) (\<lambda>response.
       if status_code response = 401 \<and> attempt < 1 then
         bnd (authenticate srv) (\<lambda>_. ret None)
       else if status_code response \<noteq> 202 \<and> status_code response \<noteq> 200 then ret (Some JNull)
       else
         bnd (lift (json_or_empty response)) (\<lambda>result.
         bnd (await_task srv result) (\<lambda>ok.
           if ok then bnd (sleep 500) (\<lambda>_. ret (Some result)) else ret (Some JNull))))"

definition delete_site_attempt :: "'c server \<Rightarrow> json list \<Rightarrow> nat \<Rightarrow> ('c, json option) prog" where
  "delete_site_attempt srv url attempt =
     try_except (delete_site_try srv url attempt) is_RequestException
       (\<lambda>e. if attempt < 1 then bnd (authenticate srv) (\<lambda>_. ret None) else ret (Some JNull))"

definition delete_site :: "'c server \<Rightarrow> string \<Rightarrow> ('c, json) prog" where
  "delete_site srv site_name =
     bnd (note_call (DeleteSite site_name)) (\<lambda>_.
     bnd (get_site_by_name srv site_name) (\<lambda>site.
       if \<not> truthy site then ret JNull
       else
         bnd (lift (py_item site ''id'')) (\<lambda>site_id.
         bnd (endpoint [JStr ''/dna/intent/api/v1/site/'', site_id]) (\<lambda>url.
         bnd (delete_site_attempt srv url 0) (\<lambda>r0.
           case r0 of
             Some v \<Rightarrow> ret v
           | None \<Rightarrow>
               bnd (delete_site_attempt srv url 1) (\<lambda>r1.
                 case r1 of Some v \<Rightarrow> ret v | None \<Rightarrow> ret JNull))))))"

text \<open>
  The search of \<open>delete_reservation\<close>: \<^verbatim>\<open>res.get('id')\<close> of the first reservation whose
  \<open>groupName\<close> is \<open>reservation_name\<close>, \<^verbatim>\<open>None\<close> when there is none.
\<close>

fun find_reservation_id :: "json list \<Rightarrow> string \<Rightarrow> exc + json" where
  "find_reservation_id [] reservation_name = Inr JNull"
| "find_reservation_id (res # rest) reservation_name =
     (case py_get res ''groupName'' JNull of
        Inl e \<Rightarrow> Inl e
      | Inr n \<Rightarrow>
          if eq_str n reservation_name then py_get res ''id'' JNull
          else find_reservation_id rest reservation_name)"

text \<open>The \<^verbatim>\<open>try\<close> block of \<open>delete_reservation\<close>.\<close>

definition delete_reservation_try :: "'c server \<Rightarrow> json \<Rightarrow> string \<Rightarrow> ('c, json) prog" where
  "delete_reservation_try srv site_id reservation_name =
     bnd (endpoint [JStr ''/dna/intent/api/v1/reserve-ip-subpool?siteId='', site_id]) (\<lambda>url.
     bnd (requests_get srv url) (\<lambda>response.
       if status_code response = 200 then
         bnd (lift (response_json response)) (\<lambda>body.
         bnd (lift (py_get body ''response'' (JArr []))) (\<lambda>reservations.
         bnd (lift (py_iter reservations)) (\<lambda>xs.
         bnd (lift (find_reservation_id xs reservation_name)) (\<lambda>reservation_id.
           if \<not> truthy reservation_id then ret JNull
           else
             bnd (endpoint [JStr ''/dna/intent/api/v1/reserve-ip-subpool/'', reservation_id])
                 (\<lambda>delete_url.
             bnd (requests_delete srv delete_url) (\<lambda>del_response.
               if status_code del_response = 200 \<or> status_code del_response = 202 then
                 bnd (lift (json_or_empty del_response)) (\<lambda>result.
                 bnd (await_task srv result) (\<lambda>ok.
                   if ok then bnd (sleep 500) (\<lambda>_. ret result) else ret JNull))
               else ret JNull))))))
       else ret JNull))"

definition delete_reservation :: "'c server \<Rightarrow> string \<Rightarrow> string \<Rightarrow> ('c, json) prog" where
  "delete_reservation srv site_name reservation_name =
     bnd (note_call (DeleteReservation site_name reservation_name)) (\<lambda>_.
     bnd (get_site_by_name srv site_name) (\<lambda>site.
       if \<not> truthy site then ret JNull
       else
         bnd (lift (py_item site ''id'')) (\<lambda>site_id.
           try_except (delete_reservation_try srv site_id reservation_name) is_Exception
             (\<lambda>e. ret JNull))))"

definition delete_global_pool :: "'c server \<Rightarrow> string \<Rightarrow> ('c, json) prog" where
  "delete_global_pool srv pool_name =
     bnd (get_global_pool_by_name srv pool_name) (\<lambda>pool.
       if \<not> truthy pool then ret JNull
       else
         bnd (lift (py_item pool ''id'')) (\<lambda>pool_id.
         bnd (endpoint [JStr ''/dna/intent/api/v1/global-pool/'', pool_id]) (\<lambda>url.
         bnd (requests_delete srv url) (\<lambda>response.
           if status_code response = 200 \<or> status_code response = 202 then
             bnd (lift (json_or_empty response)) (\<lambda>result.
             bnd (await_task srv result) (\<lambda>ok.
               if ok then bnd (sleep 1000) (\<lambda>_. ret result) else ret JNull))
           else ret JNull))))"

section \<open>The drivers\<close>

text \<open>
  The drivers call the operations one after the other and drop what they return; an
  exception that leaves an operation ends the driver.
\<close>

fun seq :: "('c, 'a) prog list \<Rightarrow> ('c, unit) prog" where
  "seq [] = ret ()"
| "seq (m # ms) = bnd m (\<lambda>_. seq ms)"

subsection \<open>The fixed topology\<close>

definition pool_plan :: "(string \<times> string) list" where
  "pool_plan =
     [(''US_CORP'', ''10.201.0.0/16''),
      (''US_TECH'', ''10.202.0.0/16''),
      (''US_GUEST'', ''10.203.0.0/16''),
      (''US_BYOD'', ''10.204.0.0/16'')]"

definition area_plan :: "(string \<times> string) list" where
  "area_plan =
     [(''United States'', ''Global''),
      (''Golden Hills Campus'', ''Global/United States''),
      (''Lakefront Tower'', ''Global/United States''),
      (''Oceanfront Mansion'', ''Global/United States''),
      (''Desert Oasis Branch'', ''Global/United States'')]"

definition building_plan :: "(string \<times> string \<times> rat \<times> rat \<times> string \<times> string) list" where
  "building_plan =
     [(''Sunset Tower'', ''Global/United States/Golden Hills Campus'',
       34099 / 1000, - (118366 / 1000),
       ''8358 Sunset Blvd, Los Angeles, CA 90069'', ''United States''),
      (''Windy City Plaza'', ''Global/United States/Lakefront Tower'',
       41878 / 1000, - (87630 / 1000),
       ''233 S Wacker Dr, Chicago, IL 60606'', ''United States''),
      (''Art Deco Mansion'', ''Global/United States/Oceanfront Mansion'',
       25782 / 1000, - (80133 / 1000),
       ''123 Ocean Drive, Miami Beach, FL 33139'', ''United States''),
      (''Desert Oasis Tower'', ''Global/United States/Desert Oasis Branch'',
       33448 / 1000, - (112074 / 1000),
       ''1235 Cactus Ave, Phoenix, AZ 85001'', ''United States'')]"

definition floor_plan :: "(string \<times> string \<times> int) list" where
  "floor_plan =
     [(''FLOOR_1'', ''Global/United States/Golden Hills Campus/Sunset Tower'', 1),
      (''FLOOR_2'', ''Global/United States/Golden Hills Campus/Sunset Tower'', 2),
      (''FLOOR_1'', ''Global/United States/Lakefront Tower/Windy City Plaza'', 1),
      (''FLOOR_2'', ''Global/United States/Lakefront Tower/Windy City Plaza'', 2),
      (''FLOOR_1'', ''Global/United States/Oceanfront Mansion/Art Deco Mansion'', 1),
      (''FLOOR_1'', ''Global/United States/Desert Oasis Branch/Desert Oasis Tower'', 1)]"

definition reservation_plan :: "(string \<times> string \<times> string \<times> string \<times> int) list" where
  "reservation_plan =
     [(''Sunset Tower'', ''ST_CORP'', ''US_CORP'', ''10.201.2.0'', 24),
      (''Sunset Tower'', ''ST_TECH'', ''US_TECH'', ''10.202.2.0'', 24),
      (''Sunset Tower'', ''ST_GUEST'', ''US_GUEST'', ''10.203.2.0'', 24),
      (''Sunset Tower'', ''ST_BYOD'', ''US_BYOD'', ''10.204.2.0'', 24),
      (''Windy City Plaza'', ''WCP_CORP'', ''US_CORP'', ''10.201.3.0'', 24),
      (''Windy City Plaza'', ''WCP_TECH'', ''US_TECH'', ''10.202.3.0'', 24),
      (''Windy City Plaza'', ''WCP_GUEST'', ''US_GUEST'', ''10.203.3.0'', 24),
      (''Windy City Plaza'', ''WCP_BYOD'', ''US_BYOD'', ''10.204.3.0'', 24),
      (''Art Deco Mansion'', ''ADM_CORP'', ''US_CORP'', ''10.201.4.0'', 24),
      (''Art Deco Mansion'', ''ADM_TECH'', ''US_TECH'', ''10.202.4.0'', 24),
      (''Art Deco Mansion'', ''ADM_GUEST'', ''US_GUEST'', ''10.203.4.0'', 24),
      (''Art Deco Mansion'', ''ADM_BYOD'', ''US_BYOD'', ''10.204.4.0'', 24),
      (''Desert Oasis Tower'', ''DOT_CORP'', ''US_CORP'', ''10.201.1.0'', 24),
      (''Desert Oasis Tower'', ''DOT_TECH'', ''US_TECH'', ''10.202.1.0'', 24),
      (''Desert Oasis Tower'', ''DOT_GUEST'', ''US_GUEST'', ''10.203.1.0'', 24),
      (''Desert Oasis Tower'', ''DOT_BYOD'', ''US_BYOD'', ''10.204.1.0'', 24)]"

subsection \<open>\<open>create_infrastructure\<close>\<close>

text \<open>The calls of \<open>create_infrastructure\<close>, top to bottom; it returns \<^verbatim>\<open>None\<close>.\<close>

definition create_infrastructure :: "'c server \<Rightarrow> ('c, unit) prog" where
  "create_infrastructure srv =
     seq (map (\<lambda>(name, cidr). create_ip_pool srv name cidr) pool_plan
        @ map (\<lambda>(name, parent). create_area srv name parent) area_plan
        @ map (\<lambda>(name, parent, lat, lon, address, country).
                 create_building srv name parent lat lon address country) building_plan
        @ map (\<lambda>(name, parent, n). create_floor srv name parent n) floor_plan
        @ map (\<lambda>(site, name, pool, subnet, len).
                 reserve_ip_subpool srv site name pool subnet len) reservation_plan)"

subsection \<open>\<open>delete_infrastructure\<close>\<close>

definition reservations_by_building :: "(string \<times> string list) list" where
  "reservations_by_building =
     [(''Sunset Tower'', [''ST_CORP'', ''ST_TECH'', ''ST_GUEST'', ''ST_BYOD'']),
      (''Windy City Plaza'', [''WCP_CORP'', ''WCP_TECH'', ''WCP_GUEST'', ''WCP_BYOD'']),
      (''Art Deco Mansion'', [''ADM_CORP'', ''ADM_TECH'', ''ADM_GUEST'', ''ADM_BYOD'']),
      (''Desert Oasis Tower'', [''DOT_CORP'', ''DOT_TECH'', ''DOT_GUEST'', ''DOT_BYOD''])]"

definition floors :: "string list" where
  "floors = [''FLOOR_1'', ''FLOOR_2'']"

definition buildings :: "string list" where
  "buildings = [''Sunset Tower'', ''Windy City Plaza'', ''Art Deco Mansion'', ''Desert Oasis Tower'']"

definition areas :: "string list" where
  "areas = [''Golden Hills Campus'', ''Lakefront Tower'', ''Oceanfront Mansion'',
            ''Desert Oasis Branch'', ''United States'']"

text \<open>
  The inner loop over \<open>floors\<close>:
  \<^verbatim>\<open>
  for floor_name in floors:
      try:
          result = cc.delete_site(floor_name)
          if result is None: break
      except Exception as e: break
  \<close>
\<close>

fun floors_round :: "'c server \<Rightarrow> string list \<Rightarrow> ('c, unit) prog" where
  "floors_round srv [] = ret ()"
| "floors_round srv (floor_name # rest) =
     bnd (try_except (delete_site srv floor_name) is_Exception (\<lambda>e. ret JNull)) (\<lambda>result.
       if result = JNull then ret () else floors_round srv rest)"

text \<open>
  What the user does at \<^verbatim>\<open>input("Type 'DELETE' to confirm: ")\<close>: a line, or an exception
  (end of input, an interrupt).
\<close>

type_synonym stdin = "exc + string"

definition delete_infrastructure :: "'c server \<Rightarrow> stdin \<Rightarrow> ('c, int) prog" where
  "delete_infrastructure srv inp =
     bnd (try_except (bnd (lift inp) (\<lambda>confirm. ret (confirm = ''DELETE'')))
            (\<lambda>e. e = EOFError \<or> e = KeyboardInterrupt) (\<lambda>e. ret False)) (\<lambda>confirmed.
       if \<not> confirmed then ret 1
       else
         bnd (try_except (bnd (authenticate srv) (\<lambda>_. ret True)) is_Exception
                (\<lambda>e. ret False)) (\<lambda>authenticated.
           if \<not> authenticated then ret 1
           else
             bnd (seq (concat (map (\<lambda>(building_name, reservations).
                         map (\<lambda>reservation_name.
                                delete_reservation srv building_name reservation_name)
                             reservations)
                       reservations_by_building))) (\<lambda>_.
             bnd (authenticate srv) (\<lambda>_.
             bnd (seq (replicate 6 (floors_round srv floors))) (\<lambda>_.
             bnd (authenticate srv) (\<lambda>_.
             bnd (seq (map (delete_site srv) buildings)) (\<lambda>_.
             bnd (authenticate srv) (\<lambda>_.
             bnd (seq (map (delete_site srv) areas)) (\<lambda>_.
               ret 0)))))))))"

subsection \<open>\<open>check_infrastructure\<close>\<close>

text \<open>
  The first two blocks of \<open>check_infrastructure\<close> send one request each; what follows the
  request inside the \<^verbatim>\<open>try\<close> only prints, and whatever it raises is caught by the handler
  that catches a failure of the request.
\<close>

definition report_of :: "'c server \<Rightarrow> json list \<Rightarrow> ('c, unit) prog" where
  "report_of srv pieces =
     try_except (bnd (endpoint pieces) (\<lambda>url.
                 bnd (requests_get srv url) (\<lambda>response. ret ())))
       is_Exception (\<lambda>e. ret ())"

text \<open>The scan of \<^verbatim>\<open>site['additionalInfo']\<close> for a type.\<close>

fun scan_info :: "json list \<Rightarrow> exc + json" where
  "scan_info [] = Inr JNull"
| "scan_info (info # rest) =
     (case py_contains info ''attributes'' of
        Inl e \<Rightarrow> Inl e
      | Inr False \<Rightarrow> scan_info rest
      | Inr True \<Rightarrow>
          (case py_item info ''attributes'' of
             Inl e \<Rightarrow> Inl e
           | Inr attributes \<Rightarrow>
               (case py_contains attributes ''type'' of
                  Inl e \<Rightarrow> Inl e
                | Inr False \<Rightarrow> scan_info rest
                | Inr True \<Rightarrow> py_item attributes ''type'')))"

definition info_type :: "json \<Rightarrow> exc + json" where
  "info_type site =
     (case py_contains site ''additionalInfo'' of
        Inl e \<Rightarrow> Inl e
      | Inr False \<Rightarrow> Inr JNull
      | Inr True \<Rightarrow>
          (case py_item site ''additionalInfo'' of
             Inl e \<Rightarrow> Inl e
           | Inr infos \<Rightarrow>
               if truthy infos then
                 (case py_iter infos of Inl e \<Rightarrow> Inl e | Inr xs \<Rightarrow> scan_info xs)
               else Inr JNull))"

text \<open>\<^verbatim>\<open>hierarchy.count('/')\<close>: strings and lists can count.\<close>

fun count_slash :: "json \<Rightarrow> exc + nat" where
  "count_slash (JStr h) = Inr (length (filter (\<lambda>c. c = CHR ''/'') h))"
| "count_slash (JArr xs) = Inr (length (filter (\<lambda>x. x = JStr ''/'') xs))"
| "count_slash _ = Inl AttributeError"

text \<open>Whether the third block takes a site for a building.\<close>

definition is_building :: "json \<Rightarrow> exc + bool" where
  "is_building site =
     (let site_type = (case info_type site of Inl e \<Rightarrow> JNull | Inr t \<Rightarrow> t)
      in if \<not> truthy site_type then
           (case py_get site ''siteNameHierarchy'' (JStr '''') of
              Inl e \<Rightarrow> Inl e
            | Inr hierarchy \<Rightarrow>
                (case count_slash hierarchy of
                   Inl e \<Rightarrow> Inl e
                 | Inr parts \<Rightarrow> Inr (parts = 3)))
         else Inr (eq_str site_type ''building''))"

fun filter_buildings :: "json list \<Rightarrow> exc + json list" where
  "filter_buildings [] = Inr []"
| "filter_buildings (site # sites) =
     (case is_building site of
        Inl e \<Rightarrow> Inl e
      | Inr b \<Rightarrow>
          (case filter_buildings sites of
             Inl e \<Rightarrow> Inl e
           | Inr bs \<Rightarrow> Inr (if b then site # bs else bs)))"

text \<open>
  The body of the loop over the buildings; here too, what follows the request only
  prints and counts.
\<close>

definition building_report :: "'c server \<Rightarrow> json \<Rightarrow> ('c, unit) prog" where
  "building_report srv building =
     bnd (lift (py_item building ''name'')) (\<lambda>building_name.
     bnd (lift (py_item building ''id'')) (\<lambda>building_id.
       report_of srv [JStr ''/dna/intent/api/v1/reserve-ip-subpool?siteId='', building_id]))"

definition reservations_report :: "'c server \<Rightarrow> ('c, unit) prog" where
  "reservations_report srv =
     try_except
       (bnd (endpoint [JStr ''/dna/intent/api/v1/site'']) (\<lambda>sites_url.
        bnd (requests_get srv sites_url) (\<lambda>response.
        bnd (lift (raise_for_status response)) (\<lambda>_.
        bnd (lift (response_json response)) (\<lambda>body.
        bnd (lift (py_get body ''response'' (JArr []))) (\<lambda>all_sites.
        bnd (lift (py_iter all_sites)) (\<lambda>xs.
        bnd (lift (filter_buildings xs)) (\<lambda>bs.
          seq (map (building_report srv) bs)))))))))
       is_Exception (\<lambda>e. ret ())"

definition check_infrastructure :: "'c server \<Rightarrow> ('c, int) prog" where
  "check_infrastructure srv =
     bnd (report_of srv [JStr ''/dna/intent/api/v1/global-pool'']) (\<lambda>_.
     bnd (report_of srv [JStr ''/dna/intent/api/v1/site'']) (\<lambda>_.
     bnd (reservations_report srv) (\<lambda>_.
       ret 0)))"

section \<open>The command line\<close>

text \<open>
  What \<open>load_credentials_from_yaml\<close> finds at the first of its two candidate paths that
  exists: nothing (no path exists), a file that cannot be read or parsed, or a document.
\<close>

datatype yaml_file = Missing | Unreadable | Document json

record config =
  cfg_base_url :: "json list"
  cfg_username :: json
  cfg_password :: json
  cfg_verify_ssl :: bool

definition load_credentials_from_yaml :: "yaml_file \<Rightarrow> config option" where
  "load_credentials_from_yaml file =
     (case file of
        Missing \<Rightarrow> None
      | Unreadable \<Rightarrow> None
      | Document doc \<Rightarrow>
          (case (py_contains doc ''CC_IP'', py_contains doc ''CC_USERNAME'',
                 py_contains doc ''CC_PASSWORD'') of
             (Inr has_ip, Inr has_username, Inr has_password) \<Rightarrow>
               if \<not> (has_ip \<and> has_username \<and> has_password) then None
               else
                 (case py_get doc ''CC_INSECURE'' (JBool True) of
                    Inl e \<Rightarrow> None
                  | Inr insecure \<Rightarrow>
                      (case (py_item doc ''CC_IP'', py_item doc ''CC_USERNAME'',
                             py_item doc ''CC_PASSWORD'') of
                         (Inr ip, Inr u, Inr p) \<Rightarrow>
                           Some \<lparr>cfg_base_url = [JStr ''https://'', ip],
                                 cfg_username = u,
                                 cfg_password = p,
                                 cfg_verify_ssl = \<not> truthy insecure\<rparr>
                       | _ \<Rightarrow> None))
           | _ \<Rightarrow> None))"

text \<open>
  The constructor \<^verbatim>\<open>CatalystCenterAPI(base_url, username, password)\<close>: it fills the fields
  of the client and leaves the world as it is.
\<close>

definition CatalystCenterAPI :: "json list \<Rightarrow> json \<Rightarrow> json \<Rightarrow> ('c, unit) prog" where
  "CatalystCenterAPI b u p =
     (\<lambda>s. (Inr (), s\<lparr>base_url := b, username := u, password := p, token := JNull,
                       headers := [(''Content-Type'', JStr ''application/json'')]\<rparr>))"

datatype action = Create | Delete | Status

text \<open>
  \<open>main\<close>, from the loading of the credentials on (the parsing of the command line has
  given the action and the path). Its value is what it returns: \<open>None\<close> or an exit code.
\<close>

definition main :: "'c server \<Rightarrow> action \<Rightarrow> yaml_file \<Rightarrow> stdin \<Rightarrow> ('c, int option) prog" where
  "main srv act file inp =
     (case load_credentials_from_yaml file of
        None \<Rightarrow> ret (Some 1)
      | Some cfg \<Rightarrow>
          bnd (CatalystCenterAPI (cfg_base_url cfg) (cfg_username cfg) (cfg_password cfg)) (\<lambda>_.
          bnd (try_except (bnd (authenticate srv) (\<lambda>_. ret True)) is_Exception
                 (\<lambda>e. ret False)) (\<lambda>authenticated.
            if \<not> authenticated then ret (Some 1)
            else
              (case act of
                 Create \<Rightarrow> bnd (create_infrastructure srv) (\<lambda>_. ret None)
               | Delete \<Rightarrow> bnd (delete_infrastructure srv inp) (\<lambda>code. ret (Some code))
               | Status \<Rightarrow> bnd (check_infrastructure srv) (\<lambda>code. ret (Some code))))))"

text \<open>
  The block under \<^verbatim>\<open>if __name__ == "__main__"\<close>: the exit code of the process.
  \<^verbatim>\<open>sys.exit(exit_code if exit_code else 0)\<close>; an interrupt or any other exception that
  leaves \<open>main\<close> gives 1.
\<close>

definition exit_code :: "'c server \<Rightarrow> action \<Rightarrow> yaml_file \<Rightarrow> stdin \<Rightarrow> 'c state \<Rightarrow> int" where
  "exit_code srv act file inp s =
     (case fst (main srv act file inp s) of
        Inl e \<Rightarrow> 1
      | Inr None \<Rightarrow> 0
      | Inr (Some code) \<Rightarrow> if code \<noteq> 0 then code else 0)"

section \<open>What an operation may do to the state\<close>

text \<open>
  The properties below follow the state through whole runs. \<open>stable Q C I\<close> says that the
  state predicate \<open>I\<close> survives every step the client can take: sending a request that
  satisfies \<open>Q\<close> (the controller and the clock may move in any way), the passing of time,
  a new token, the making of the client, and the noting of a delete call that satisfies
  \<open>C\<close>. \<open>sends Q C m\<close> says
  that the operation \<open>m\<close> keeps every such predicate: it sends only requests that satisfy
  \<open>Q\<close> and notes only calls that satisfy \<open>C\<close>.
\<close>

definition preserves :: "('c state \<Rightarrow> bool) \<Rightarrow> ('c, 'a) prog \<Rightarrow> bool" where
  "preserves I m = (\<forall>s. I s \<longrightarrow> I (snd (m s)))"

definition stable :: "(request \<Rightarrow> bool) \<Rightarrow> (call \<Rightarrow> bool) \<Rightarrow> ('c state \<Rightarrow> bool) \<Rightarrow> bool" where
  "stable Q C I =
     (\<forall>s. I s \<longrightarrow>
        (\<forall>c d rq. Q rq \<longrightarrow> I (s\<lparr>ctrl := c, clock := d, reqs := reqs s @ [rq]\<rparr>)) \<and>
        (\<forall>d. I (s\<lparr>clock := d\<rparr>)) \<and>
        (\<forall>t h. I (s\<lparr>token := t, headers := h\<rparr>)) \<and>
        (\<forall>b u p t h. I (s\<lparr>base_url := b, username := u, password := p, token := t,
                            headers := h\<rparr>)) \<and>
        (\<forall>c. C c \<longrightarrow> I (s\<lparr>calls := calls s @ [c]\<rparr>)))"

definition sends :: "(request \<Rightarrow> bool) \<Rightarrow> (call \<Rightarrow> bool) \<Rightarrow> ('c, 'a) prog \<Rightarrow> bool" where
  "sends Q C m = (\<forall>I. stable Q C I \<longrightarrow> preserves I m)"

text \<open>\<open>Q\<close> admits the requests of method \<open>k\<close> that are sent without certificate check.\<close>

definition allows :: "meth \<Rightarrow> (request \<Rightarrow> bool) \<Rightarrow> bool" where
  "allows k Q = (\<forall>rq. req_meth rq = k \<longrightarrow> \<not> req_verify rq \<longrightarrow> Q rq)"

text \<open>
  \<open>hoare P m R\<close>: from a state in \<open>P\<close>, the operation \<open>m\<close> ends in a state in \<open>R\<close>, whether
  it returns or raises.
\<close>

definition hoare :: "('c state \<Rightarrow> bool) \<Rightarrow> ('c, 'a) prog \<Rightarrow> ('c state \<Rightarrow> bool) \<Rightarrow> bool" where
  "hoare P m R = (\<forall>s. P s \<longrightarrow> R (snd (m s)))"

section \<open>Notions the properties are stated with\<close>


text \<open>Every request sent since the \<open>n\<close>-th went out without certificate check.\<close>

definition insecure_since :: "nat \<Rightarrow> 'c state \<Rightarrow> bool" where
  "insecure_since n s = (n \<le> length (reqs s) \<and> list_all (\<lambda>rq. \<not> req_verify rq) (drop n (reqs s)))"


text \<open>
  The delete calls of the teardown of the fixed topology, stage by stage: the sixteen
  reservations; the floors, which go in rounds, each round \<open>FLOOR_1\<close> alone or \<open>FLOOR_1\<close>
  and then \<open>FLOOR_2\<close>; the four buildings; the four areas below \<open>United States\<close>, and
  \<open>United States\<close> after them.
\<close>

definition reservation_calls :: "call list" where
  "reservation_calls =
     [DeleteReservation ''Sunset Tower'' ''ST_CORP'',
      DeleteReservation ''Sunset Tower'' ''ST_TECH'',
      DeleteReservation ''Sunset Tower'' ''ST_GUEST'',
      DeleteReservation ''Sunset Tower'' ''ST_BYOD'',
      DeleteReservation ''Windy City Plaza'' ''WCP_CORP'',
      DeleteReservation ''Windy City Plaza'' ''WCP_TECH'',
      DeleteReservation ''Windy City Plaza'' ''WCP_GUEST'',
      DeleteReservation ''Windy City Plaza'' ''WCP_BYOD'',
      DeleteReservation ''Art Deco Mansion'' ''ADM_CORP'',
      DeleteReservation ''Art Deco Mansion'' ''ADM_TECH'',
      DeleteReservation ''Art Deco Mansion'' ''ADM_GUEST'',
      DeleteReservation ''Art Deco Mansion'' ''ADM_BYOD'',
      DeleteReservation ''Desert Oasis Tower'' ''DOT_CORP'',
      DeleteReservation ''Desert Oasis Tower'' ''DOT_TECH'',
      DeleteReservation ''Desert Oasis Tower'' ''DOT_GUEST'',
      DeleteReservation ''Desert Oasis Tower'' ''DOT_BYOD'']"

definition floor_rounds :: "call list set" where
  "floor_rounds = {[DeleteSite ''FLOOR_1''], [DeleteSite ''FLOOR_1'', DeleteSite ''FLOOR_2'']}"

definition building_calls :: "call list" where
  "building_calls =
     [DeleteSite ''Sunset Tower'', DeleteSite ''Windy City Plaza'',
      DeleteSite ''Art Deco Mansion'', DeleteSite ''Desert Oasis Tower'']"

definition area_calls :: "call list" where
  "area_calls =
     [DeleteSite ''Golden Hills Campus'', DeleteSite ''Lakefront Tower'',
      DeleteSite ''Oceanfront Mansion'', DeleteSite ''Desert Oasis Branch'',
      DeleteSite ''United States'']"

text \<open>The operation a delete call stands for.\<close>

fun attempt :: "'c server \<Rightarrow> call \<Rightarrow> ('c, json) prog" where
  "attempt srv (DeleteReservation building_name reservation_name) =
     delete_reservation srv building_name reservation_name"
| "attempt srv (DeleteSite site_name) = delete_site srv site_name"

text \<open>
  \<open>adds m S N\<close>: the operation \<open>m\<close> only appends to the delete calls; when it returns \<open>x\<close>
  it has appended a list \<open>cs\<close> with \<open>N x cs\<close>, and when it raises it has appended an
  initial segment of a list in \<open>S\<close>.
\<close>

definition adds :: "('c, 'a) prog \<Rightarrow> (call list \<Rightarrow> bool) \<Rightarrow> ('a \<Rightarrow> call list \<Rightarrow> bool) \<Rightarrow> bool" where
  "adds m S N =
     (\<forall>s. \<exists>cs. calls (snd (m s)) = calls s @ cs \<and>
            (case fst (m s) of Inl e \<Rightarrow> (\<exists>rest. S (cs @ rest)) | Inr x \<Rightarrow> N x cs))"

text \<open>
  The parent a site lies under, read off its \<open>siteNameHierarchy\<close>
  (\<^verbatim>\<open>"Global/United States/Area/Building/Floor"\<close>): the segment before the last.
\<close>

definition direct_parent :: "json \<Rightarrow> string option" where
  "direct_parent site =
     (case py_get site ''siteNameHierarchy'' (JStr '''') of
        Inr (JStr hierarchy) \<Rightarrow>
          (let parts = split CHR ''/'' hierarchy
           in if 2 \<le> length parts then Some (parts ! (length parts - 2)) else None)
      | _ \<Rightarrow> None)"

text \<open>
  A site as the controller lists it: a dict with a \<open>name\<close> whose \<open>siteNameHierarchy\<close>, when
  it has one, is a string.
\<close>

fun listed_site :: "json \<Rightarrow> bool" where
  "listed_site (JObj kvs) =
     (map_of kvs ''name'' \<noteq> None \<and>
      (case map_of kvs ''siteNameHierarchy'' of
         None \<Rightarrow> True
       | Some (JStr hierarchy) \<Rightarrow> True
       | Some _ \<Rightarrow> False))"
| "listed_site _ = False"

text \<open>The requests sent so far begin with \<open>rs\<close>.\<close>

definition begins_with :: "request list \<Rightarrow> 'c state \<Rightarrow> bool" where
  "begins_with rs s = (take (length rs) (reqs s) = rs)"

text \<open>The requests the client sends with \<^verbatim>\<open>requests.get\<close> and \<^verbatim>\<open>requests.post\<close>.\<close>

definition get_request :: "json list \<Rightarrow> (string \<times> json) list \<Rightarrow> request" where
  "get_request u h =
     \<lparr>req_meth = GET, req_url = u, req_headers = Some h, req_json = None, req_auth = None,
      req_verify = False, req_timeout = 30\<rparr>"

definition post_request :: "json list \<Rightarrow> (string \<times> json) list \<Rightarrow> json \<Rightarrow> request" where
  "post_request u h payload =
     \<lparr>req_meth = POST, req_url = u, req_headers = Some h, req_json = Some payload,
      req_auth = None, req_verify = False, req_timeout = 30\<rparr>"

section \<open>Sample controllers\<close>

text \<open>A world at time \<open>now\<close> in which no client has been made yet.\<close>

definition world :: "'c \<Rightarrow> nat \<Rightarrow> 'c state" where
  "world c now =
     \<lparr>base_url = [], username = JNull, password = JNull, token = JNull, headers = [],
      ctrl = c, clock = now, reqs = [], calls = []\<rparr>"

definition json_response :: "int \<Rightarrow> json \<Rightarrow> response" where
  "json_response code v = \<lparr>status_code = code, resp_text = ''<json>'', json_body = Some v\<rparr>"

text \<open>A controller that gives one and the same answer to every request, at once.\<close>

definition fixed_server :: "response \<Rightarrow> unit server" where
  "fixed_server r = (\<lambda>c rq. (Response r, 0, c))"

definition demo_client :: "unit state" where
  "demo_client =
     snd (CatalystCenterAPI [JStr ''https://'', JStr ''198.18.129.100''] (JStr ''admin'')
            (JStr ''secret'') (world () 0))"









text \<open>A controller that cannot be reached.\<close>

definition unreachable_server :: "unit server" where
  "unreachable_server = (\<lambda>c rq. (Raises ConnectionError, 0, c))"

text \<open>A configuration file with the three required keys and a value for \<open>CC_INSECURE\<close>.\<close>

definition demo_config :: "json \<Rightarrow> (string \<times> json) list" where
  "demo_config flag =
     [(''CC_IP'', JStr ''198.18.129.100''),
      (''CC_USERNAME'', JStr ''admin''),
      (''CC_PASSWORD'', JStr ''secret''),
      (''CC_INSECURE'', flag)]"

text \<open>Two floors of the same name under two buildings, as the controller lists them.\<close>

definition floor_of_sunset_tower :: json where
  "floor_of_sunset_tower =
     JObj [(''id'', JStr ''f-1''), (''name'', JStr ''FLOOR_1''),
           (''siteNameHierarchy'',
            JStr ''Global/United States/Golden Hills Campus/Sunset Tower/FLOOR_1'')]"

definition floor_of_windy_city :: json where
  "floor_of_windy_city =
     JObj [(''id'', JStr ''f-2''), (''name'', JStr ''FLOOR_1''),
           (''siteNameHierarchy'',
            JStr ''Global/United States/Lakefront Tower/Windy City Plaza/FLOOR_1'')]"

definition floors_server :: "unit server" where
  "floors_server =
     fixed_server (json_response 200
       (JObj [(''response'', JArr [floor_of_sunset_tower, floor_of_windy_city])]))"

text \<open>
  A small controller that keeps a list of global pools. It lists them, adds the pool a
  creation request names (with the CIDR \<open>10.201.0.0/16\<close>), lists one building, has no
  reservations, answers every creation request with a task, and reports every task as a
  success.
\<close>

definition path_of :: "request \<Rightarrow> string" where
  "path_of rq = (case req_url rq of b # h # JStr p # rest \<Rightarrow> p | _ \<Rightarrow> [])"

definition task_answer :: response where
  "task_answer =
     json_response 202
       (JObj [(''executionId'', JStr ''exec-0001''),
              (''executionStatusUrl'',
               JStr ''/dna/intent/api/v1/dnacaap/management/execution-status/exec-0001''),
              (''Token'', JStr ''token-1'')])"

definition sunset_tower :: json where
  "sunset_tower =
     JObj [(''id'', JStr ''site-7''), (''name'', JStr ''Sunset Tower''),
           (''siteNameHierarchy'', JStr ''Global/United States/Golden Hills Campus/Sunset Tower'')]"

definition new_pool :: "json \<Rightarrow> json" where
  "new_pool payload =
     JObj [(''id'', JStr ''pool-1''),
           (''ipPoolName'', (case py_get payload ''name'' JNull of Inr n \<Rightarrow> n | Inl e \<Rightarrow> JNull)),
           (''ipPoolCidr'', JStr ''10.201.0.0/16'')]"

definition pool_controller :: "json list server" where
  "pool_controller pools rq =
     (if path_of rq = ''/dna/intent/api/v1/global-pool'' then
        (case req_json rq of
           Some payload \<Rightarrow> (Response task_answer, 0, pools @ [new_pool payload])
         | None \<Rightarrow> (Response (json_response 200 (JObj [(''response'', JArr pools)])), 0, pools))
      else if path_of rq = ''/dna/intent/api/v1/site'' then
        (Response (json_response 200 (JObj [(''response'', JArr [sunset_tower])])), 0, pools)
      else if path_of rq = ''/dna/intent/api/v1/reserve-ip-subpool?siteId='' then
        (Response (json_response 200 (JObj [(''response'', JArr [])])), 0, pools)
      else if req_meth rq = POST then (Response task_answer, 0, pools)
      else (Response (json_response 200 (JObj [(''status'', JStr ''SUCCESS'')])), 0, pools))"

definition pool_client :: "json list state" where
  "pool_client =
     snd (CatalystCenterAPI [JStr ''https://'', JStr ''198.18.129.100''] (JStr ''admin'')
            (JStr ''secret'') (world [] 0))"

text \<open>
  A controller that accepts everything and fails every task: one answer for every
  request, with a token, a task, and the status \<open>FAILED\<close>.
\<close>

definition refusing_server :: "unit server" where
  "refusing_server =
     fixed_server (json_response 200
       (JObj [(''Token'', JStr ''token-1''),
              (''executionId'', JStr ''exec-0001''),
              (''status'', JStr ''FAILED''),
              (''response'', JArr [])]))"

section \<open>Frame rules\<close>

named_theorems pres

lemma allows_any: "allows k (\<lambda>rq. True)"
  by (simp add: allows_def)

lemma sendsD: "sends Q C m \<Longrightarrow> stable Q C I \<Longrightarrow> I s \<Longrightarrow> I (snd (m s))"
  unfolding sends_def preserves_def by blast

lemma sends_ret [pres]: "sends Q C (ret x)"
  by (simp add: sends_def preserves_def ret_def)

lemma sends_raise [pres]: "sends Q C (raise e)"
  by (simp add: sends_def preserves_def raise_def)

lemma sends_lift [pres]: "sends Q C (lift r)"
  by (simp add: sends_def preserves_def lift_def)

lemma sends_gets [pres]: "sends Q C (gets f)"
  by (simp add: sends_def preserves_def gets_def)

lemma sends_bnd [pres]:
  assumes m: "sends Q C m" and f: "\<And>x. sends Q C (f x)"
  shows "sends Q C (bnd m f)"
  unfolding sends_def preserves_def
proof (intro allI impI)
  fix I :: "'a state \<Rightarrow> bool" and s
  assume st: "stable Q C I" and "I s"
  obtain r s' where ms: "m s = (r, s')"
    by (cases "m s")
  with sendsD [OF m st \<open>I s\<close>] have "I s'"
    by simp
  with ms show "I (snd (bnd m f s))"
    using sendsD [OF f st, of s'] by (cases r) (auto simp: bnd_def)
qed

lemma sends_try_except [pres]:
  assumes m: "sends Q C m" and h: "\<And>e. sends Q C (h e)"
  shows "sends Q C (try_except m c h)"
  unfolding sends_def preserves_def
proof (intro allI impI)
  fix I :: "'a state \<Rightarrow> bool" and s
  assume st: "stable Q C I" and "I s"
  obtain r s' where ms: "m s = (r, s')"
    by (cases "m s")
  with sendsD [OF m st \<open>I s\<close>] have "I s'"
    by simp
  with ms show "I (snd (try_except m c h s))"
    using sendsD [OF h st, of s'] by (cases r) (auto simp: try_except_def)
qed

lemma sends_if [pres]:
  "(c \<Longrightarrow> sends Q C a) \<Longrightarrow> (\<not> c \<Longrightarrow> sends Q C b) \<Longrightarrow> sends Q C (if c then a else b)"
  by simp

lemma sends_case_option [pres]:
  "sends Q C a \<Longrightarrow> (\<And>v. sends Q C (f v)) \<Longrightarrow>
   sends Q C (case x of None \<Rightarrow> a | Some v \<Rightarrow> f v)"
  by (cases x) simp_all

lemma sends_http [pres]: "Q rq \<Longrightarrow> sends Q C (http srv rq)"
  by (auto simp: sends_def preserves_def stable_def http_def Let_def
           split: prod.splits outcome.splits)

lemma sends_sleep [pres]: "sends Q C (sleep ms)"
  by (auto simp: sends_def preserves_def stable_def sleep_def)

lemma sends_set_token [pres]: "sends Q C (set_token t)"
  by (auto simp: sends_def preserves_def stable_def set_token_def)

lemma sends_CatalystCenterAPI [pres]: "sends Q C (CatalystCenterAPI b u p)"
  by (auto simp: sends_def preserves_def stable_def CatalystCenterAPI_def)

lemma sends_note_call [pres]: "C c \<Longrightarrow> sends Q C (note_call c)"
  by (auto simp: sends_def preserves_def stable_def note_call_def)

lemma sends_requests_get [pres]: "allows GET Q \<Longrightarrow> sends Q C (requests_get srv u)"
  unfolding requests_get_def by (intro pres) (simp add: allows_def)

lemma sends_requests_post [pres]: "allows POST Q \<Longrightarrow> sends Q C (requests_post srv u p)"
  unfolding requests_post_def by (intro pres) (simp add: allows_def)

lemma sends_requests_delete [pres]: "allows DELETE Q \<Longrightarrow> sends Q C (requests_delete srv u)"
  unfolding requests_delete_def by (intro pres) (simp add: allows_def)

lemma sends_endpoint [pres]: "sends Q C (endpoint ps)"
  unfolding endpoint_def by (intro pres)

lemma sends_poll_once [pres]: "allows GET Q \<Longrightarrow> sends Q C (poll_once srv u)"
  unfolding poll_once_def poll_body_def by (intro pres; assumption)

lemma wait_loop_keeps:
  "allows GET Q \<Longrightarrow> stable Q C I \<Longrightarrow> I s \<Longrightarrow> I (snd (wait_loop srv u st t s))"
proof (induction srv u st t s rule: wait_loop.induct)
  case (1 srv u start_time timeout s)
  show ?case
  proof (cases "in_time start_time timeout s")
    case False
    then show ?thesis
      using "1.prems" by (subst wait_loop.simps) simp
  next
    case True
    obtain r s' where p: "poll_once srv u s = (r, s')"
      by (cases "poll_once srv u s")
    have I': "I s'"
      using sendsD [OF sends_poll_once [OF "1.prems"(1)] "1.prems"(2,3), of srv u] p by simp
    show ?thesis
    proof (cases r)
      case (Inl e)
      then show ?thesis
        using True p I' by (subst wait_loop.simps) simp
    next
      case (Inr v)
      show ?thesis
      proof (cases v)
        case (Some b)
        then show ?thesis
          using True p I' Inr by (subst wait_loop.simps) simp
      next
        case None
        let ?s = "snd (sleep (1000 * check_interval) s')"
        have "I ?s"
          using sendsD [OF sends_sleep "1.prems"(2) I'] .
        then have "I (snd (wait_loop srv u start_time timeout ?s))"
          using "1.IH" [OF True p [symmetric] _ _ "1.prems"(1,2)] Inr None by simp
        then show ?thesis
          using True p Inr None by (subst wait_loop.simps) simp
      qed
    qed
  qed
qed

lemma sends_wait_loop [pres]: "allows GET Q \<Longrightarrow> sends Q C (wait_loop srv u st t)"
  by (simp add: sends_def preserves_def wait_loop_keeps)

lemma sends_wait_for_task [pres]: "allows GET Q \<Longrightarrow> sends Q C (wait_for_task srv a b t)"
  unfolding wait_for_task_def by (intro pres; assumption)

lemma sends_await_task [pres]: "allows GET Q \<Longrightarrow> sends Q C (await_task srv r)"
  unfolding await_task_def by (intro pres; assumption)

lemma sends_check_status_once [pres]: "allows GET Q \<Longrightarrow> sends Q C (check_status_once srv r)"
  unfolding check_status_once_def by (intro pres; assumption)

lemma sends_authenticate [pres]: "allows POST Q \<Longrightarrow> sends Q C (authenticate srv)"
  unfolding authenticate_def by (intro pres) (simp add: allows_def)

lemma sends_get_site_by_name [pres]: "allows GET Q \<Longrightarrow> sends Q C (get_site_by_name srv n)"
  unfolding get_site_by_name_def by (intro pres; assumption)

lemma sends_get_site_by_name_and_parent [pres]:
  "allows GET Q \<Longrightarrow> sends Q C (get_site_by_name_and_parent srv n p)"
  unfolding get_site_by_name_and_parent_def by (intro pres; assumption)

lemma sends_get_global_pool_by_name [pres]:
  "allows GET Q \<Longrightarrow> sends Q C (get_global_pool_by_name srv n)"
  unfolding get_global_pool_by_name_def by (intro pres; assumption)

lemma sends_reservations_of [pres]: "allows GET Q \<Longrightarrow> sends Q C (reservations_of srv i n)"
  unfolding reservations_of_def by (intro pres; assumption)

lemma sends_get_reservation_by_name [pres]:
  "allows GET Q \<Longrightarrow> sends Q C (get_reservation_by_name srv n r)"
  unfolding get_reservation_by_name_def by (intro pres; assumption)

lemma sends_create_ip_pool [pres]:
  "allows GET Q \<Longrightarrow> allows POST Q \<Longrightarrow> sends Q C (create_ip_pool srv n c)"
  unfolding create_ip_pool_def by (intro pres; assumption)

lemma sends_create_area [pres]:
  "allows GET Q \<Longrightarrow> allows POST Q \<Longrightarrow> sends Q C (create_area srv n p)"
  unfolding create_area_def by (intro pres; assumption)

lemma sends_create_building [pres]:
  "allows GET Q \<Longrightarrow> allows POST Q \<Longrightarrow> sends Q C (create_building srv n p la lo a c)"
  unfolding create_building_def by (intro pres; assumption)

lemma sends_create_floor [pres]:
  "allows GET Q \<Longrightarrow> allows POST Q \<Longrightarrow> sends Q C (create_floor srv n p k)"
  unfolding create_floor_def by (intro pres; assumption)

lemma sends_reserve_ip_subpool [pres]:
  "allows GET Q \<Longrightarrow> allows POST Q \<Longrightarrow> sends Q C (reserve_ip_subpool srv a b c d e)"
  unfolding reserve_ip_subpool_def by (intro pres; assumption)

lemma sends_delete_site_try [pres]:
  "allows GET Q \<Longrightarrow> allows POST Q \<Longrightarrow> allows DELETE Q \<Longrightarrow>
   sends Q C (delete_site_try srv u k)"
  unfolding delete_site_try_def by (intro pres; assumption)

lemma sends_delete_site_attempt [pres]:
  "allows GET Q \<Longrightarrow> allows POST Q \<Longrightarrow> allows DELETE Q \<Longrightarrow>
   sends Q C (delete_site_attempt srv u k)"
  unfolding delete_site_attempt_def by (intro pres; assumption)

lemma sends_delete_site [pres]:
  "allows GET Q \<Longrightarrow> allows POST Q \<Longrightarrow> allows DELETE Q \<Longrightarrow> C (DeleteSite n) \<Longrightarrow>
   sends Q C (delete_site srv n)"
  unfolding delete_site_def by (intro pres; assumption)

lemma sends_delete_reservation_try [pres]:
  "allows GET Q \<Longrightarrow> allows DELETE Q \<Longrightarrow> sends Q C (delete_reservation_try srv i n)"
  unfolding delete_reservation_try_def by (intro pres; assumption)

lemma sends_delete_reservation [pres]:
  "allows GET Q \<Longrightarrow> allows DELETE Q \<Longrightarrow> C (DeleteReservation b n) \<Longrightarrow>
   sends Q C (delete_reservation srv b n)"
  unfolding delete_reservation_def by (intro pres; assumption)

lemma sends_delete_global_pool [pres]:
  "allows GET Q \<Longrightarrow> allows DELETE Q \<Longrightarrow> sends Q C (delete_global_pool srv n)"
  unfolding delete_global_pool_def by (intro pres; assumption)

lemma sends_seq: "(\<And>m. m \<in> set ms \<Longrightarrow> sends Q C m) \<Longrightarrow> sends Q C (seq ms)"
proof (induction ms)
  case Nil
  show ?case by (simp add: sends_ret)
next
  case (Cons m ms)
  have "sends Q C m" "sends Q C (seq ms)"
    using Cons by simp_all
  then show ?case
    by (simp add: sends_bnd)
qed

lemma sends_seq_map: "(\<And>x. sends Q C (f x)) \<Longrightarrow> sends Q C (seq (map f xs))"
  by (rule sends_seq) auto

lemma sends_floors_round [pres]:
  "allows GET Q \<Longrightarrow> allows POST Q \<Longrightarrow> allows DELETE Q \<Longrightarrow>
   (\<And>n. n \<in> set ns \<Longrightarrow> C (DeleteSite n)) \<Longrightarrow> sends Q C (floors_round srv ns)"
proof (induction ns)
  case Nil
  show ?case by (simp add: sends_ret)
next
  case (Cons n ns)
  have d: "sends Q C (delete_site srv n)"
    using Cons.prems by (intro sends_delete_site) simp_all
  have r: "sends Q C (floors_round srv ns)"
    using Cons by simp
  show ?case
    unfolding floors_round.simps
    by (intro sends_bnd sends_try_except sends_ret sends_if d r)
qed

lemma sends_report_of [pres]: "allows GET Q \<Longrightarrow> sends Q C (report_of srv ps)"
  unfolding report_of_def by (intro pres; assumption)

lemma sends_building_report [pres]: "allows GET Q \<Longrightarrow> sends Q C (building_report srv b)"
  unfolding building_report_def by (intro pres; assumption)

lemma sends_reservations_report [pres]: "allows GET Q \<Longrightarrow> sends Q C (reservations_report srv)"
  unfolding reservations_report_def by (intro pres sends_seq_map; assumption)

lemma sends_check_infrastructure [pres]:
  "allows GET Q \<Longrightarrow> sends Q C (check_infrastructure srv)"
  unfolding check_infrastructure_def by (intro pres; assumption)

lemma sends_create_infrastructure [pres]:
  "allows GET Q \<Longrightarrow> allows POST Q \<Longrightarrow> sends Q C (create_infrastructure srv)"
  unfolding create_infrastructure_def
  by (rule sends_seq) (auto intro: sends_create_ip_pool sends_create_area
        sends_create_building sends_create_floor sends_reserve_ip_subpool)


lemma sends_delete_infrastructure [pres]:
  "allows GET Q \<Longrightarrow> allows POST Q \<Longrightarrow> allows DELETE Q \<Longrightarrow> (\<And>c. C c) \<Longrightarrow>
   sends Q C (delete_infrastructure srv inp)"
  unfolding delete_infrastructure_def
  by (intro pres sends_seq sends_seq_map sends_floors_round; (assumption | auto intro: pres)?)

lemma sends_case_action [pres]:
  "sends Q C a \<Longrightarrow> sends Q C b \<Longrightarrow> sends Q C c \<Longrightarrow>
   sends Q C (case x of Create \<Rightarrow> a | Delete \<Rightarrow> b | Status \<Rightarrow> c)"
  by (cases x) simp_all

lemma sends_main [pres]:
  "allows GET Q \<Longrightarrow> allows POST Q \<Longrightarrow> allows DELETE Q \<Longrightarrow> (\<And>c. C c) \<Longrightarrow>
   sends Q C (main srv act file inp)"
  unfolding main_def
  by (intro pres; (assumption | simp)?)

section \<open>Properties of the task poller\<close>
















lemma demo_client_fields:
  "base_url demo_client = [JStr ''https://'', JStr ''198.18.129.100'']"
  "clock demo_client = 0"
  "reqs demo_client = []"
  by (simp_all add: demo_client_def CatalystCenterAPI_def world_def)





lemma requests_get_fixed:
  "requests_get (fixed_server r) u s =
     (Inr r, s\<lparr>ctrl := (), clock := clock s + 0,
               reqs := reqs s @ [\<lparr>req_meth = GET, req_url = u, req_headers = Some (headers s),
                 req_json = None, req_auth = None, req_verify = False, req_timeout = 30\<rparr>]\<rparr>)"
  by (simp add: requests_get_def bnd_def gets_def http_def fixed_server_def)
















section \<open>Properties of the lookups\<close>


lemma split_acc_no_sep:
  "sep \<notin> set cur \<Longrightarrow> \<forall>p \<in> set (split_acc sep cur s). sep \<notin> set p"
proof (induction s arbitrary: cur)
  case Nil
  then show ?case by simp
next
  case (Cons c cs)
  show ?case
  proof (cases "c = sep")
    case True
    have "\<forall>p \<in> set (split_acc sep [] cs). sep \<notin> set p"
      by (rule Cons.IH) simp
    with True Cons.prems show ?thesis by simp
  next
    case False
    have "\<forall>p \<in> set (split_acc sep (c # cur) cs). sep \<notin> set p"
      using False Cons.prems by (intro Cons.IH) auto
    with False show ?thesis by simp
  qed
qed

lemma split_no_sep: "p \<in> set (split sep s) \<Longrightarrow> sep \<notin> set p"
  unfolding split_def using split_acc_no_sep [of sep "[]" s] by simp

lemma parent_matches_mem: "parent_matches parts p \<Longrightarrow> p \<in> set parts"
  by (auto simp: parent_matches_def)

lemma parent_matches_no_slash:
  "CHR ''/'' \<in> set p \<Longrightarrow> \<not> parent_matches (split CHR ''/'' h) p"
  using parent_matches_mem split_no_sep by blast

lemma find_site_under_found:
  "find_site_under xs n p = Inr site \<Longrightarrow> site \<noteq> JNull \<Longrightarrow>
   site \<in> set xs \<and> py_item site ''name'' = Inr (JStr n) \<and> direct_parent site = Some p"
proof (induction xs)
  case Nil
  then show ?case by simp
next
  case (Cons x xs)
  show ?case
  proof (cases "py_item x ''name''")
    case (Inl e)
    with Cons.prems show ?thesis by simp
  next
    case (Inr nm)
    show ?thesis
    proof (cases "eq_str nm n")
      case False
      with Cons Inr show ?thesis by simp
    next
      case True
      show ?thesis
      proof (cases "py_get x ''siteNameHierarchy'' (JStr [])")
        case (Inl e)
        with Cons.prems Inr True show ?thesis by simp
      next
        case h: (Inr hv)
        show ?thesis
        proof (cases hv)
          case (JStr hierarchy)
          show ?thesis
          proof (cases "parent_matches (split CHR ''/'' hierarchy) p")
            case False
            with Cons Inr True h JStr show ?thesis by simp
          next
            case pm: True
            with Cons.prems Inr True h JStr have "site = x" by simp
            moreover have "direct_parent x = Some p"
              using pm h JStr by (simp add: direct_parent_def parent_matches_def Let_def)
            moreover have "py_item x ''name'' = Inr (JStr n)"
              using Inr True by (simp add: eq_str_def)
            ultimately show ?thesis by simp
          qed
        qed (use Cons.prems Inr True h in simp_all)
      qed
    qed
  qed
qed

lemma find_site_under_no_slash:
  "CHR ''/'' \<in> set p \<Longrightarrow> find_site_under xs n p = Inr site \<Longrightarrow> site = JNull"
  using find_site_under_found [of xs n p site] parent_matches_no_slash [of p]
  by (cases "site = JNull") (auto simp: direct_parent_def parent_matches_def Let_def split: sum.splits json.splits if_splits)

lemma lookup_from_list:
  "fst (get_site_by_name_and_parent srv n p s) = Inr x \<Longrightarrow> \<exists>xs. find_site_under xs n p = Inr x"
  by (auto simp: get_site_by_name_and_parent_def bnd_def lift_def split: prod.splits sum.splits)

lemma direct_parent_JNull: "direct_parent JNull = None"
  by (simp add: direct_parent_def)

lemma requests_get_effect:
  "requests_get srv u s = (r, s1) \<Longrightarrow>
   reqs s1 = reqs s @ [get_request u (headers s)] \<and> base_url s1 = base_url s \<and>
   headers s1 = headers s \<and> calls s1 = calls s"
  by (auto simp: requests_get_def bnd_def gets_def http_def Let_def get_request_def
           split: prod.splits outcome.splits)

lemma requests_post_effect:
  "requests_post srv u p s = (r, s1) \<Longrightarrow>
   reqs s1 = reqs s @ [post_request u (headers s) p] \<and> base_url s1 = base_url s \<and>
   headers s1 = headers s \<and> calls s1 = calls s"
  by (auto simp: requests_post_def bnd_def gets_def http_def Let_def post_request_def
           split: prod.splits outcome.splits)

lemma split_empty: "split c [] = [[]]"
  by (simp add: split_def)

lemma find_site_under_listed:
  "list_all listed_site xs \<Longrightarrow> CHR ''/'' \<in> set p \<Longrightarrow> find_site_under xs n p = Inr JNull"
proof (induction xs)
  case Nil
  show ?case by simp
next
  case (Cons x xs)
  then obtain kvs where x: "x = JObj kvs" and l: "listed_site (JObj kvs)"
    by (cases x) auto
  from l obtain nm where nm: "map_of kvs ''name'' = Some nm"
    by auto
  have rest: "find_site_under xs n p = Inr JNull"
    using Cons by simp
  show ?case
  proof (cases "map_of kvs ''siteNameHierarchy''")
    case None
    then show ?thesis
      using x nm rest by (simp add: split_empty parent_matches_def)
  next
    case (Some hv)
    with l obtain h where "hv = JStr h"
      by (cases hv) auto
    then show ?thesis
      using x nm rest Some parent_matches_no_slash [OF Cons.prems(2), of h] by simp
  qed
qed

lemma lookup_no_slash:
  assumes "CHR ''/'' \<in> set parent_name"
      and "requests_get srv (base_url s @ [JStr ''/dna/intent/api/v1/site'']) s = (Inr r, s1)"
      and "json_body r = Some (JObj body)"
      and "map_of body ''response'' = Some (JArr sites)"
      and "list_all listed_site sites"
  shows "get_site_by_name_and_parent srv site_name parent_name s = (Inr JNull, s1)"
  using assms find_site_under_listed [OF assms(5,1), of site_name]
  by (simp add: get_site_by_name_and_parent_def bnd_def endpoint_def gets_def ret_def lift_def
        response_json_def)

lemma stable_begins_with: "stable Q C (begins_with rs)"
proof -
  have "take (length rs) (xs @ [rq]) = rs" if "take (length rs) xs = rs" for xs and rq :: request
  proof -
    have "length (take (length rs) xs) = length rs"
      using that by simp
    then have "length rs \<le> length xs"
      by simp
    with that show ?thesis by simp
  qed
  then show ?thesis
    by (auto simp: stable_def begins_with_def)
qed

lemma create_floor_posts:
  assumes "get_site_by_name_and_parent srv name parent_name s = (Inr JNull, s1)"
  shows "begins_with
           (reqs s1 @ [post_request (base_url s1 @ [JStr ''/dna/intent/api/v1/site''])
                         (headers s1) (floor_payload name parent_name n)])
           (snd (create_floor srv name parent_name n s))"
proof -
  let ?url = "base_url s1 @ [JStr ''/dna/intent/api/v1/site'']"
  let ?post = "post_request ?url (headers s1) (floor_payload name parent_name n)"
  let ?rest = "\<lambda>response.
           if status_code response \<noteq> 202 then ret JNull
           else
             bnd (lift (response_json response)) (\<lambda>result.
             bnd (await_task srv result) (\<lambda>ok.
               if ok then bnd (sleep 1000) (\<lambda>_. ret result) else ret JNull))"
  obtain r s2 where p: "requests_post srv ?url (floor_payload name parent_name n) s1 = (r, s2)"
    by (cases "requests_post srv ?url (floor_payload name parent_name n) s1")
  have b: "begins_with (reqs s1 @ [?post]) s2"
    using requests_post_effect [OF p] by (simp add: begins_with_def)
  have c: "create_floor srv name parent_name n s =
        bnd (requests_post srv ?url (floor_payload name parent_name n)) ?rest s1"
    using assms by (simp add: create_floor_def bnd_def endpoint_def gets_def ret_def)
  show ?thesis
  proof (cases r)
    case (Inl e)
    with p b show ?thesis
      by (simp add: c bnd_def)
  next
    case (Inr response)
    have "sends (\<lambda>rq. True) (\<lambda>c. True) (?rest response)"
      by (intro pres allows_any)
    then have "begins_with (reqs s1 @ [?post]) (snd (?rest response s2))"
      using stable_begins_with b by (rule sendsD)
    with p Inr show ?thesis
      by (simp add: c bnd_def)
  qed
qed

lemma floor_plan_full_paths: "list_all (\<lambda>(name, parent, n). CHR ''/'' \<in> set parent) floor_plan"
  by (simp add: floor_plan_def)

lemma requests_get_fixed_request:
  "requests_get (fixed_server r) u s =
     (Inr r, s\<lparr>ctrl := (), clock := clock s + 0, reqs := reqs s @ [get_request u (headers s)]\<rparr>)"
  by (simp add: requests_get_def bnd_def gets_def http_def fixed_server_def get_request_def)

lemma sunset_parent: "direct_parent floor_of_sunset_tower = Some ''Sunset Tower''"
  by (simp add: direct_parent_def floor_of_sunset_tower_def split_def)

lemma windy_found:
  "fst (get_site_by_name_and_parent floors_server ''FLOOR_1'' ''Windy City Plaza'' demo_client)
     = Inr floor_of_windy_city"
  by (simp add: get_site_by_name_and_parent_def bnd_def endpoint_def gets_def ret_def lift_def
        floors_server_def requests_get_fixed_request json_response_def response_json_def
        floor_of_sunset_tower_def floor_of_windy_city_def eq_str_def split_def
        parent_matches_def)

text \<open>
  C5. Whatever the controller lists, a lookup of a name under the parent \<open>P\<close> never
  returns a floor that lies under another parent \<open>P'\<close>; two floors of one name under
  two parents are two sites.
\<close>

theorem floor_lookup_by_parent:
  assumes "direct_parent floor' = Some P'" and "P' \<noteq> P"
  shows "fst (get_site_by_name_and_parent srv N P s) \<noteq> Inr floor'"
proof
  assume "fst (get_site_by_name_and_parent srv N P s) = Inr floor'"
  then obtain xs where "find_site_under xs N P = Inr floor'"
    using lookup_from_list by blast
  moreover have "floor' \<noteq> JNull"
    using assms(1) direct_parent_JNull by auto
  ultimately have "direct_parent floor' = Some P"
    using find_site_under_found by blast
  with assms show False by simp
qed

theorem floor_lookup_by_parent_witness:
  "direct_parent floor_of_sunset_tower = Some ''Sunset Tower'' \<and>
   ''Sunset Tower'' \<noteq> ''Windy City Plaza'' \<and>
   floor_of_sunset_tower \<noteq> floor_of_windy_city \<and>
   fst (get_site_by_name_and_parent floors_server ''FLOOR_1'' ''Windy City Plaza'' demo_client)
     = Inr floor_of_windy_city \<and>
   fst (get_site_by_name_and_parent floors_server ''FLOOR_1'' ''Windy City Plaza'' demo_client)
     \<noteq> Inr floor_of_sunset_tower"
proof -
  have d: "''Sunset Tower'' \<noteq> ''Windy City Plaza''"
    by simp
  have "floor_of_sunset_tower \<noteq> floor_of_windy_city"
    by (simp add: floor_of_sunset_tower_def floor_of_windy_city_def)
  then show ?thesis
    using floor_lookup_by_parent [OF sunset_parent d, of floors_server "''FLOOR_1''" demo_client]
      sunset_parent windy_found
    by simp
qed

text \<open>
  C10. A parent name with a \<open>/\<close> in it is never the segment before the last of a
  hierarchy, so \<open>get_site_by_name_and_parent\<close> returns no site for it, whatever the
  controller answers, and returns \<^verbatim>\<open>None\<close> on a list of sites. \<open>create_floor\<close> then goes on
  to its creation request; and every parent \<open>create_infrastructure\<close> hands to \<open>create_floor\<close>
  is such a path.
\<close>

theorem full_path_parent_never_found:
  assumes "CHR ''/'' \<in> set parent_name"
      and "requests_get srv (base_url s @ [JStr ''/dna/intent/api/v1/site'']) s = (Inr r, s1)"
      and "json_body r = Some (JObj body)"
      and "map_of body ''response'' = Some (JArr sites)"
      and "list_all listed_site sites"
  shows "get_site_by_name_and_parent srv site_name parent_name s = (Inr JNull, s1) \<and>
         begins_with
           (reqs s1 @ [post_request (base_url s1 @ [JStr ''/dna/intent/api/v1/site''])
                         (headers s1) (floor_payload site_name parent_name n)])
           (snd (create_floor srv site_name parent_name n s)) \<and>
         (\<forall>srv' s' x. fst (get_site_by_name_and_parent srv' site_name parent_name s') = Inr x
            \<longrightarrow> x = JNull) \<and>
         list_all (\<lambda>(name, parent, n). CHR ''/'' \<in> set parent) floor_plan"
proof -
  have l: "get_site_by_name_and_parent srv site_name parent_name s = (Inr JNull, s1)"
    using assms by (rule lookup_no_slash)
  have "x = JNull"
    if "fst (get_site_by_name_and_parent srv' site_name parent_name s') = Inr x" for srv' s' x
    using lookup_from_list [OF that] find_site_under_no_slash [OF assms(1)] by blast
  then show ?thesis
    using l create_floor_posts [OF l] floor_plan_full_paths by blast
qed

theorem full_path_parent_never_found_witness:
  "direct_parent floor_of_windy_city = Some ''Windy City Plaza'' \<and>
   fst (get_site_by_name_and_parent floors_server ''FLOOR_1''
          ''Global/United States/Lakefront Tower/Windy City Plaza'' demo_client) = Inr JNull \<and>
   map req_meth (take 2 (reqs (snd (create_floor floors_server ''FLOOR_1''
          ''Global/United States/Lakefront Tower/Windy City Plaza'' 1 demo_client))))
     = [GET, POST]"
proof -
  let ?parent = "''Global/United States/Lakefront Tower/Windy City Plaza''"
  let ?url = "base_url demo_client @ [JStr ''/dna/intent/api/v1/site'']"
  let ?body = "[(''response'', JArr [floor_of_sunset_tower, floor_of_windy_city])]"
  obtain s1 where g: "requests_get floors_server ?url demo_client =
      (Inr (json_response 200 (JObj ?body)), s1)"
    by (simp add: floors_server_def requests_get_fixed_request)
  have r: "reqs s1 = [get_request ?url (headers demo_client)]"
    using requests_get_effect [OF g] by (simp add: demo_client_fields)
  have slash: "CHR ''/'' \<in> set ?parent"
    by simp
  have listed: "list_all listed_site [floor_of_sunset_tower, floor_of_windy_city]"
    by (simp add: floor_of_sunset_tower_def floor_of_windy_city_def)
  have w: "direct_parent floor_of_windy_city = Some ''Windy City Plaza''"
    by (simp add: direct_parent_def floor_of_windy_city_def split_def)
  have b: "json_body (json_response 200 (JObj ?body)) = Some (JObj ?body)"
    by (simp add: json_response_def)
  have m: "map_of ?body ''response'' = Some (JArr [floor_of_sunset_tower, floor_of_windy_city])"
    by simp
  note t = full_path_parent_never_found [OF slash g b m listed, of "''FLOOR_1''" 1]
  let ?post = "post_request (base_url s1 @ [JStr ''/dna/intent/api/v1/site''])
                     (headers s1) (floor_payload ''FLOOR_1'' ?parent 1)"
  from t have bw: "begins_with (reqs s1 @ [?post])
      (snd (create_floor floors_server ''FLOOR_1'' ?parent 1 demo_client))"
    by blast
  have len: "length (reqs s1 @ [?post]) = 2"
    by (simp add: r)
  have "take 2 (reqs (snd (create_floor floors_server ''FLOOR_1'' ?parent 1 demo_client)))
      = reqs s1 @ [?post]"
    using bw unfolding begins_with_def len .
  then have mm: "map req_meth (take 2 (reqs (snd (create_floor floors_server ''FLOOR_1''
          ?parent 1 demo_client)))) = [GET, POST]"
    by (simp add: r get_request_def post_request_def)
  from t have "get_site_by_name_and_parent floors_server ''FLOOR_1'' ?parent demo_client
      = (Inr JNull, s1)"
    by (rule conjunct1)
  then have f: "fst (get_site_by_name_and_parent floors_server ''FLOOR_1'' ?parent demo_client)
      = Inr JNull"
    by simp
  show ?thesis
    using w f mm by (intro conjI)
qed

section \<open>Properties of the drivers and of the command line\<close>


lemma stable_calls: "stable Q (\<lambda>c. False) (\<lambda>s. calls s = cs)"
  by (simp add: stable_def)

lemma keeps_calls:
  assumes "sends Q (\<lambda>c. False) m"
  shows "calls (snd (m s)) = calls s"
proof -
  have "stable Q (\<lambda>c. False) (\<lambda>s'. calls s' = calls s)"
    by (rule stable_calls)
  from sendsD [OF assms this] show ?thesis
    by simp
qed

lemma calls_after_note:
  assumes "sends (\<lambda>rq. True) (\<lambda>c. False) B"
  shows "calls (snd (bnd (note_call c) (\<lambda>_. B) s)) = calls s @ [c]"
  using keeps_calls [OF assms, of "s\<lparr>calls := calls s @ [c]\<rparr>"]
  by (simp add: bnd_def note_call_def)

lemma calls_delete_site: "calls (snd (delete_site srv n s)) = calls s @ [DeleteSite n]"
  unfolding delete_site_def by (rule calls_after_note) (intro pres allows_any)

lemma calls_delete_reservation:
  "calls (snd (delete_reservation srv b r s)) = calls s @ [DeleteReservation b r]"
  unfolding delete_reservation_def by (rule calls_after_note) (intro pres allows_any)

lemma calls_attempt: "calls (snd (attempt srv c s)) = calls s @ [c]"
  by (cases c) (simp_all add: calls_delete_site calls_delete_reservation)

lemma calls_authenticate: "calls (snd (authenticate srv s)) = calls s"
  by (rule keeps_calls [of "\<lambda>rq. True"]) (intro pres allows_any)

lemma adds_effect:
  "(\<And>s. \<exists>cs. calls (snd (m s)) = calls s @ cs \<and> S cs) \<Longrightarrow> adds m S (\<lambda>x. S)"
  unfolding adds_def
proof
  fix s
  assume "\<And>s. \<exists>cs. calls (snd (m s)) = calls s @ cs \<and> S cs"
  then obtain cs where "calls (snd (m s)) = calls s @ cs" "S cs"
    by blast
  then have "calls (snd (m s)) = calls s @ cs \<and>
      (case fst (m s) of Inl e \<Rightarrow> (\<exists>rest. S (cs @ rest)) | Inr x \<Rightarrow> S cs)"
    by (cases "fst (m s)") (auto intro: exI [of _ "[]"])
  then show "\<exists>cs. calls (snd (m s)) = calls s @ cs \<and>
      (case fst (m s) of Inl e \<Rightarrow> (\<exists>rest. S (cs @ rest)) | Inr x \<Rightarrow> S cs)"
    by blast
qed

lemma adds_ret: "N x [] \<Longrightarrow> adds (ret x) S N"
  by (simp add: adds_def ret_def)

lemma adds_if:
  "(c \<Longrightarrow> adds a S N) \<Longrightarrow> (\<not> c \<Longrightarrow> adds b S N) \<Longrightarrow> adds (if c then a else b) S N"
  by simp

lemma adds_weaken:
  assumes "adds m S N" and "\<And>l. S l \<Longrightarrow> S' l" and "\<And>x l. N x l \<Longrightarrow> N' x l"
  shows "adds m S' N'"
  unfolding adds_def
proof
  fix s
  obtain cs where c: "calls (snd (m s)) = calls s @ cs"
      and d: "case fst (m s) of Inl e \<Rightarrow> (\<exists>rest. S (cs @ rest)) | Inr x \<Rightarrow> N x cs"
    using assms(1) unfolding adds_def by blast
  have "case fst (m s) of Inl e \<Rightarrow> (\<exists>rest. S' (cs @ rest)) | Inr x \<Rightarrow> N' x cs"
    using d assms(2,3) by (cases "fst (m s)") auto
  with c show "\<exists>cs. calls (snd (m s)) = calls s @ cs \<and>
      (case fst (m s) of Inl e \<Rightarrow> (\<exists>rest. S' (cs @ rest)) | Inr x \<Rightarrow> N' x cs)"
    by blast
qed

lemma adds_bnd:
  fixes m :: "('c, 'a) prog" and f :: "'a \<Rightarrow> ('c, 'b) prog"
  assumes m: "adds m S (\<lambda>x. S)" and f: "\<And>x. adds (f x) T M" and t: "T t0"
  shows "adds (bnd m f) (\<lambda>l. \<exists>a b. l = a @ b \<and> S a \<and> T b)
                        (\<lambda>y l. \<exists>a b. l = a @ b \<and> S a \<and> M y b)"
  unfolding adds_def
proof
  fix s :: "'c state"
  let ?goal = "\<lambda>r. \<exists>cs. calls (snd r) = calls s @ cs \<and>
      (case fst r of Inl e \<Rightarrow> (\<exists>rest. \<exists>a b. cs @ rest = a @ b \<and> S a \<and> T b)
                   | Inr y \<Rightarrow> (\<exists>a b. cs = a @ b \<and> S a \<and> M y b))"
  obtain r s' where ms: "m s = (r, s')"
    by (cases "m s")
  obtain cs where c: "calls s' = calls s @ cs"
      and d: "case r of Inl e \<Rightarrow> (\<exists>rest. S (cs @ rest)) | Inr x \<Rightarrow> S cs"
    using m ms unfolding adds_def by (metis fst_conv snd_conv)
  show "?goal (bnd m f s)"
  proof (cases r)
    case (Inl e)
    then obtain rest where "S (cs @ rest)"
      using d by auto
    then have "cs @ (rest @ t0) = (cs @ rest) @ t0 \<and> S (cs @ rest) \<and> T t0"
      using t by simp
    then have "\<exists>rest a b. cs @ rest = a @ b \<and> S a \<and> T b"
      by blast
    then show ?thesis
      using Inl ms c by (auto simp: bnd_def)
  next
    case (Inr x)
    then have S: "S cs"
      using d by simp
    obtain cs2 where c2: "calls (snd (f x s')) = calls s' @ cs2"
        and d2: "case fst (f x s') of Inl e \<Rightarrow> (\<exists>rest. T (cs2 @ rest)) | Inr y \<Rightarrow> M y cs2"
      using f [of x] unfolding adds_def by blast
    have b: "bnd m f s = f x s'"
      using ms Inr by (simp add: bnd_def)
    have e: "calls (snd (f x s')) = calls s @ (cs @ cs2)"
      using c c2 by simp
    show ?thesis
    proof (cases "fst (f x s')")
      case (Inl e')
      then obtain rest where "T (cs2 @ rest)"
        using d2 by auto
      then have "(cs @ cs2) @ rest = cs @ (cs2 @ rest) \<and> S cs \<and> T (cs2 @ rest)"
        using S by simp
      then have "\<exists>rest a b. (cs @ cs2) @ rest = a @ b \<and> S a \<and> T b"
        by blast
      then show ?thesis
        unfolding b using Inl e by auto
    next
      case (Inr y)
      then have "M y cs2"
        using d2 by simp
      then have "\<exists>a b. cs @ cs2 = a @ b \<and> S a \<and> M y b"
        using S by blast
      then show ?thesis
        unfolding b using Inr e by auto
    qed
  qed
qed


lemma adds_exact: "(\<And>s. calls (snd (m s)) = calls s @ c) \<Longrightarrow> adds m (\<lambda>l. l = c) (\<lambda>x l. l = c)"
  by (rule adds_effect) simp

lemma calls_seq_attempt:
  "\<exists>k. calls (snd (seq (map (attempt srv) cs) s)) = calls s @ take k cs \<and>
        ((\<exists>x. fst (seq (map (attempt srv) cs) s) = Inr x) \<longrightarrow> take k cs = cs)"
proof (induction cs arbitrary: s)
  case Nil
  show ?case by (simp add: ret_def)
next
  case (Cons c cs)
  obtain r s' where a: "attempt srv c s = (r, s')"
    by (cases "attempt srv c s")
  have c: "calls s' = calls s @ [c]"
    using calls_attempt [of srv c s] a by simp
  show ?case
  proof (cases r)
    case (Inl e)
    then have "seq (map (attempt srv) (c # cs)) s = (Inl e, s')"
      using a by (simp add: bnd_def)
    then have "calls (snd (seq (map (attempt srv) (c # cs)) s)) = calls s @ take 1 (c # cs) \<and>
        ((\<exists>x. fst (seq (map (attempt srv) (c # cs)) s) = Inr x) \<longrightarrow> take 1 (c # cs) = c # cs)"
      using c by simp
    then show ?thesis
      by blast
  next
    case (Inr x)
    then have b: "seq (map (attempt srv) (c # cs)) s = seq (map (attempt srv) cs) s'"
      using a by (simp add: bnd_def)
    obtain k where "calls (snd (seq (map (attempt srv) cs) s')) = calls s' @ take k cs"
        "(\<exists>x. fst (seq (map (attempt srv) cs) s') = Inr x) \<longrightarrow> take k cs = cs"
      using Cons.IH [of s'] by blast
    then have "calls (snd (seq (map (attempt srv) (c # cs)) s)) = calls s @ take (Suc k) (c # cs) \<and>
        ((\<exists>x. fst (seq (map (attempt srv) (c # cs)) s) = Inr x) \<longrightarrow>
           take (Suc k) (c # cs) = c # cs)"
      unfolding b using c by simp
    then show ?thesis
      by blast
  qed
qed

lemma adds_seq_attempt:
  "adds (seq (map (attempt srv) cs)) (\<lambda>l. l = cs) (\<lambda>x l. l = cs)"
  unfolding adds_def
proof
  fix s :: "'a state"
  let ?r = "seq (map (attempt srv) cs) s"
  obtain k where k: "calls (snd ?r) = calls s @ take k cs"
      "(\<exists>x. fst ?r = Inr x) \<longrightarrow> take k cs = cs"
    using calls_seq_attempt [of srv cs s] by blast
  have "case fst ?r of Inl e \<Rightarrow> (\<exists>rest. take k cs @ rest = cs) | Inr x \<Rightarrow> take k cs = cs"
  proof (cases "fst ?r")
    case (Inl e)
    have "take k cs @ drop k cs = cs"
      by simp
    then show ?thesis
      using Inl by (simp only: sum.case) blast
  next
    case (Inr x)
    then show ?thesis
      using k(2) by simp
  qed
  with k(1) show "\<exists>l. calls (snd ?r) = calls s @ l \<and>
      (case fst ?r of Inl e \<Rightarrow> (\<exists>rest. l @ rest = cs) | Inr x \<Rightarrow> l = cs)"
    by blast
qed

lemma snd_try_ret: "snd (try_except m h (\<lambda>e. ret x) s) = snd (m s)"
  by (simp add: try_except_def ret_def split: prod.splits sum.splits)

lemma calls_floors_round:
  "calls (snd (floors_round srv floors s)) = calls s @ [DeleteSite ''FLOOR_1''] \<or>
   calls (snd (floors_round srv floors s)) =
     calls s @ [DeleteSite ''FLOOR_1'', DeleteSite ''FLOOR_2'']"
proof -
  let ?guarded = "\<lambda>n. try_except (delete_site srv n) is_Exception (\<lambda>e. ret JNull)"
  have t: "calls (snd (?guarded n s)) = calls s @ [DeleteSite n]" for n and s :: "'a state"
    by (simp add: snd_try_ret calls_delete_site)
  obtain r s1 where a: "?guarded ''FLOOR_1'' s = (r, s1)"
    by (cases "?guarded ''FLOOR_1'' s")
  have c1: "calls s1 = calls s @ [DeleteSite ''FLOOR_1'']"
    using t [of "''FLOOR_1''" s] a by simp
  obtain r2 s2 where b: "?guarded ''FLOOR_2'' s1 = (r2, s2)"
    by (cases "?guarded ''FLOOR_2'' s1")
  have c2: "calls s2 = calls s @ [DeleteSite ''FLOOR_1'', DeleteSite ''FLOOR_2'']"
    using t [of "''FLOOR_2''" s1] b c1 by simp
  have "snd (floors_round srv floors s) = s1 \<or> snd (floors_round srv floors s) = s2"
    using a b by (cases r; cases r2) (simp_all add: floors_def bnd_def ret_def)
  then show ?thesis
    using c1 c2 by auto
qed

lemma adds_floors_round:
  "adds (floors_round srv floors) (\<lambda>l. l \<in> floor_rounds) (\<lambda>x l. l \<in> floor_rounds)"
proof (rule adds_effect)
  fix s :: "'a state"
  show "\<exists>cs. calls (snd (floors_round srv floors s)) = calls s @ cs \<and> cs \<in> floor_rounds"
    using calls_floors_round [of srv s] by (auto simp: floor_rounds_def)
qed

lemma adds_rounds:
  "adds (seq (replicate n (floors_round srv floors)))
     (\<lambda>l. \<exists>rounds. length rounds = n \<and> set rounds \<subseteq> floor_rounds \<and> l = concat rounds)
     (\<lambda>x l. \<exists>rounds. length rounds = n \<and> set rounds \<subseteq> floor_rounds \<and> l = concat rounds)"
proof (induction n)
  case 0
  show ?case
    by (simp add: adds_ret)
next
  case (Suc n)
  let ?S = "\<lambda>k l. \<exists>rounds. length rounds = k \<and> set rounds \<subseteq> floor_rounds \<and> l = concat rounds"
  have t0: "?S n (concat (replicate n [DeleteSite ''FLOOR_1'']))"
    by (intro exI [of _ "replicate n [DeleteSite ''FLOOR_1'']"]) (auto simp: floor_rounds_def)
  have step: "?S (Suc n) l" if l: "l = a @ b" and a: "a \<in> floor_rounds" and b: "?S n b" for l a b
  proof -
    obtain rounds where "length rounds = n" "set rounds \<subseteq> floor_rounds" "b = concat rounds"
      using b by blast
    then have "length (a # rounds) = Suc n \<and> set (a # rounds) \<subseteq> floor_rounds \<and>
        l = concat (a # rounds)"
      using l a by simp
    then show ?thesis
      by blast
  qed
  have "adds (bnd (floors_round srv floors) (\<lambda>_. seq (replicate n (floors_round srv floors))))
      (\<lambda>l. \<exists>a b. l = a @ b \<and> a \<in> floor_rounds \<and> ?S n b)
      (\<lambda>y l. \<exists>a b. l = a @ b \<and> a \<in> floor_rounds \<and> ?S n b)"
    using adds_floors_round Suc.IH t0 by (rule adds_bnd)
  then have "adds (bnd (floors_round srv floors) (\<lambda>_. seq (replicate n (floors_round srv floors))))
      (?S (Suc n)) (\<lambda>y. ?S (Suc n))"
    by (rule adds_weaken) (use step in blast)+
  then show ?case
    by simp
qed


lemma adds_then:
  fixes m :: "('c, 'a) prog" and f :: "'a \<Rightarrow> ('c, 'b) prog"
  assumes "adds m (\<lambda>l. l = c) (\<lambda>x l. l = c)" and "\<And>x. adds (f x) T M" and "T t0"
  shows "adds (bnd m f) (\<lambda>l. \<exists>b. l = c @ b \<and> T b) (\<lambda>y l. \<exists>b. l = c @ b \<and> M y b)"
  by (rule adds_weaken [OF adds_bnd [OF assms]]) auto

lemma adds_after:
  fixes m :: "('c, 'a) prog" and f :: "'a \<Rightarrow> ('c, 'b) prog"
  assumes "adds m (\<lambda>l. l = []) (\<lambda>x l. l = [])" and "\<And>x. adds (f x) T M" and "T t0"
  shows "adds (bnd m f) T M"
  by (rule adds_weaken [OF adds_then [OF assms]]) auto

lemma adds_authenticate: "adds (authenticate srv) (\<lambda>l. l = []) (\<lambda>x l. l = [])"
  by (rule adds_exact) (simp add: calls_authenticate)

lemma adds_keeps:
  "sends (\<lambda>rq. True) (\<lambda>c. False) m \<Longrightarrow> adds m (\<lambda>l. l = []) (\<lambda>x l. l = [])"
  by (rule adds_exact) (simp add: keeps_calls)

lemma reservation_progs:
  "concat (map (\<lambda>(building_name, reservations).
             map (\<lambda>reservation_name. delete_reservation srv building_name reservation_name)
                 reservations)
           reservations_by_building) = map (attempt srv) reservation_calls"
  by (simp add: reservations_by_building_def reservation_calls_def)

lemma building_progs: "map (delete_site srv) buildings = map (attempt srv) building_calls"
  by (simp add: buildings_def building_calls_def)

lemma area_progs: "map (delete_site srv) areas = map (attempt srv) area_calls"
  by (simp add: areas_def area_calls_def)

lemma adds_delete_infrastructure:
  "adds (delete_infrastructure srv inp)
     (\<lambda>l. \<exists>rounds. length rounds = 6 \<and> set rounds \<subseteq> floor_rounds \<and>
            l = reservation_calls @ concat rounds @ building_calls @ area_calls)
     (\<lambda>v l. v = 1 \<and> l = [] \<or>
            v = 0 \<and> (\<exists>rounds. length rounds = 6 \<and> set rounds \<subseteq> floor_rounds \<and>
                       l = reservation_calls @ concat rounds @ building_calls @ area_calls))"
proof -
  let ?ok = "\<lambda>rounds. length rounds = 6 \<and> set rounds \<subseteq> floor_rounds"
  let ?T1 = "\<lambda>l. l = area_calls"
  let ?T3 = "\<lambda>l. l = building_calls @ area_calls"
  let ?T5 = "\<lambda>l. \<exists>rounds. length rounds = 6 \<and> set rounds \<subseteq> floor_rounds \<and>
                 l = concat rounds @ building_calls @ area_calls"
  let ?T7 = "\<lambda>l. \<exists>rounds. length rounds = 6 \<and> set rounds \<subseteq> floor_rounds \<and>
                 l = reservation_calls @ concat rounds @ building_calls @ area_calls"
  let ?A1 = "bnd (seq (map (attempt srv) area_calls)) (\<lambda>_. ret (0::int))"
  let ?A2 = "bnd (authenticate srv) (\<lambda>_. ?A1)"
  let ?A3 = "bnd (seq (map (attempt srv) building_calls)) (\<lambda>_. ?A2)"
  let ?A4 = "bnd (authenticate srv) (\<lambda>_. ?A3)"
  let ?A5 = "bnd (seq (replicate 6 (floors_round srv floors))) (\<lambda>_. ?A4)"
  let ?A6 = "bnd (authenticate srv) (\<lambda>_. ?A5)"
  let ?A7 = "bnd (seq (map (attempt srv) reservation_calls)) (\<lambda>_. ?A6)"
  have ok0: "?ok (replicate 6 [DeleteSite ''FLOOR_1''])"
    by (auto simp: floor_rounds_def)
  have a0: "adds (ret (0::int)) (\<lambda>l. l = []) (\<lambda>v l. v = 0 \<and> l = [])"
    by (simp add: adds_ret)
  have a1: "adds ?A1 ?T1 (\<lambda>v l. v = 0 \<and> ?T1 l)"
    by (rule adds_weaken [OF adds_then [OF adds_seq_attempt a0]]) auto
  have a2: "adds ?A2 ?T1 (\<lambda>v l. v = 0 \<and> ?T1 l)"
    by (rule adds_after [OF adds_authenticate a1]) simp
  have a3: "adds ?A3 ?T3 (\<lambda>v l. v = 0 \<and> ?T3 l)"
    by (rule adds_weaken [OF adds_then [OF adds_seq_attempt a2]]) auto
  have a4: "adds ?A4 ?T3 (\<lambda>v l. v = 0 \<and> ?T3 l)"
    by (rule adds_after [OF adds_authenticate a3]) simp
  have a5: "adds ?A5 ?T5 (\<lambda>v l. v = 0 \<and> ?T5 l)"
    by (rule adds_weaken [OF adds_bnd [OF adds_rounds a4]]) auto
  have t5: "?T5 (concat (replicate 6 [DeleteSite ''FLOOR_1'']) @ building_calls @ area_calls)"
    using ok0 by blast
  have a6: "adds ?A6 ?T5 (\<lambda>v l. v = 0 \<and> ?T5 l)"
    using adds_authenticate a5 t5 by (rule adds_after)
  have a7: "adds ?A7 ?T7 (\<lambda>v l. v = 0 \<and> ?T7 l)"
    by (rule adds_weaken [OF adds_then [OF adds_seq_attempt a6 t5]]) auto
  let ?N = "\<lambda>v l. v = (1::int) \<and> l = [] \<or> v = 0 \<and> ?T7 l"
  have t7: "?T7 (reservation_calls @ concat (replicate 6 [DeleteSite ''FLOOR_1'']) @
                 building_calls @ area_calls)"
    using ok0 by blast
  have a8: "adds ?A7 ?T7 ?N"
    by (rule adds_weaken [OF a7]) auto
  have stop: "adds (ret (1::int)) ?T7 ?N"
    by (simp add: adds_ret)
  have asked: "adds (try_except (bnd (lift inp) (\<lambda>confirm. ret (confirm = ''DELETE'')))
         (\<lambda>e. e = EOFError \<or> e = KeyboardInterrupt) (\<lambda>e. ret False))
       (\<lambda>l. l = []) (\<lambda>x l. l = [])"
    by (rule adds_keeps) (intro pres)
  have tried: "adds (try_except (bnd (authenticate srv) (\<lambda>_. ret True)) is_Exception
         (\<lambda>e. ret False)) (\<lambda>l. l = []) (\<lambda>x l. l = [])"
    by (rule adds_keeps) (intro pres allows_any)
  let ?authenticated = "\<lambda>authenticated. if \<not> authenticated then ret 1 else ?A7"
  have i: "adds (?authenticated a) ?T7 ?N" for a
    using stop a8 by (rule adds_if)
  have j: "adds (bnd (try_except (bnd (authenticate srv) (\<lambda>_. ret True)) is_Exception
         (\<lambda>e. ret False)) ?authenticated) ?T7 ?N"
    using tried i t7 by (rule adds_after)
  let ?confirmed = "\<lambda>confirmed. if \<not> confirmed then ret 1
       else bnd (try_except (bnd (authenticate srv) (\<lambda>_. ret True)) is_Exception
         (\<lambda>e. ret False)) ?authenticated"
  have k: "adds (?confirmed c) ?T7 ?N" for c
    using stop j by (rule adds_if)
  have "adds (bnd (try_except (bnd (lift inp) (\<lambda>confirm. ret (confirm = ''DELETE'')))
         (\<lambda>e. e = EOFError \<or> e = KeyboardInterrupt) (\<lambda>e. ret False)) ?confirmed) ?T7 ?N"
    using asked k t7 by (rule adds_after)
  then show ?thesis
    unfolding delete_infrastructure_def reservation_progs building_progs area_progs .
qed

lemma fst_bnd:
  assumes "\<And>s. fst (m s) = Inr x" and "\<And>s. fst (f x s) = Inr y"
  shows "fst (bnd m f s) = Inr y"
proof -
  obtain s' where "m s = (Inr x, s')"
    using assms(1) [of s] by (cases "m s") simp
  then show ?thesis
    using assms(2) [of s'] by (simp add: bnd_def)
qed

lemma fst_seq:
  assumes "\<And>m s. m \<in> set ms \<Longrightarrow> \<exists>x. fst (m s) = Inr x"
  shows "fst (seq ms s) = Inr ()"
  using assms
proof (induction ms arbitrary: s)
  case Nil
  show ?case by (simp add: ret_def)
next
  case (Cons m ms)
  obtain x s' where "m s = (Inr x, s')"
    using Cons.prems [of m s] by (cases "m s") auto
  moreover have "fst (seq ms s') = Inr ()"
    using Cons by simp
  ultimately show ?case
    by (simp add: bnd_def)
qed

lemma refusing_authenticate: "fst (authenticate refusing_server s) = Inr (JStr ''token-1'')"
  by (simp add: authenticate_def bnd_def endpoint_def gets_def ret_def lift_def http_def
        fixed_server_def refusing_server_def json_response_def raise_for_status_def
        response_json_def set_token_def)

lemma refusing_get_site:
  "fst (get_site_by_name refusing_server n s) = Inr JNull"
  by (simp add: get_site_by_name_def bnd_def endpoint_def gets_def ret_def lift_def
        requests_get_fixed refusing_server_def json_response_def response_json_def)

lemma refusing_delete_site: "fst (delete_site refusing_server n s) = Inr JNull"
proof -
  have "fst (bnd (get_site_by_name refusing_server n) f s') = fst (f JNull (snd (get_site_by_name refusing_server n s')))"
    for f :: "json \<Rightarrow> (unit, json) prog" and s'
    using refusing_get_site [of n s'] by (cases "get_site_by_name refusing_server n s'") (simp add: bnd_def)
  then show ?thesis
    by (simp add: delete_site_def note_call_def bnd_def ret_def)
qed

lemma refusing_delete_reservation: "fst (delete_reservation refusing_server b r s) = Inr JNull"
proof -
  have "fst (bnd (get_site_by_name refusing_server b) f s') = fst (f JNull (snd (get_site_by_name refusing_server b s')))"
    for f :: "json \<Rightarrow> (unit, json) prog" and s'
    using refusing_get_site [of b s'] by (cases "get_site_by_name refusing_server b s'") (simp add: bnd_def)
  then show ?thesis
    by (simp add: delete_reservation_def note_call_def bnd_def ret_def)
qed

lemma refusing_attempt: "fst (attempt refusing_server c s) = Inr JNull"
  by (cases c) (simp_all add: refusing_delete_site refusing_delete_reservation)

lemma refusing_floors_round: "fst (floors_round refusing_server floors s) = Inr ()"
proof -
  obtain s' where "delete_site refusing_server ''FLOOR_1'' s = (Inr JNull, s')"
    using refusing_delete_site [of "''FLOOR_1''" s]
    by (cases "delete_site refusing_server ''FLOOR_1'' s") simp
  then show ?thesis
    by (simp add: floors_def bnd_def try_except_def ret_def)
qed

lemma refusing_teardown:
  "fst (delete_infrastructure refusing_server (Inr ''DELETE'') s) = Inr 0"
proof -
  let ?srv = "refusing_server"
  let ?A1 = "bnd (seq (map (attempt ?srv) area_calls)) (\<lambda>_. ret (0::int))"
  let ?A2 = "bnd (authenticate ?srv) (\<lambda>_. ?A1)"
  let ?A3 = "bnd (seq (map (attempt ?srv) building_calls)) (\<lambda>_. ?A2)"
  let ?A4 = "bnd (authenticate ?srv) (\<lambda>_. ?A3)"
  let ?A5 = "bnd (seq (replicate 6 (floors_round ?srv floors))) (\<lambda>_. ?A4)"
  let ?A6 = "bnd (authenticate ?srv) (\<lambda>_. ?A5)"
  let ?A7 = "bnd (seq (map (attempt ?srv) reservation_calls)) (\<lambda>_. ?A6)"
  have sq: "fst (seq (map (attempt ?srv) cs) s) = Inr ()" for cs and s :: "unit state"
    by (rule fst_seq) (auto simp: refusing_attempt)
  have rounds: "fst (seq (replicate 6 (floors_round ?srv floors)) s) = Inr ()" for s :: "unit state"
    by (rule fst_seq) (auto simp: refusing_floors_round)
  have a1: "fst (?A1 s) = Inr 0" for s :: "unit state"
    by (rule fst_bnd [OF sq]) (simp add: ret_def)
  have a2: "fst (?A2 s) = Inr 0" for s :: "unit state"
    using refusing_authenticate a1 by (rule fst_bnd)
  have a3: "fst (?A3 s) = Inr 0" for s :: "unit state"
    using sq a2 by (rule fst_bnd)
  have a4: "fst (?A4 s) = Inr 0" for s :: "unit state"
    using refusing_authenticate a3 by (rule fst_bnd)
  have a5: "fst (?A5 s) = Inr 0" for s :: "unit state"
    using rounds a4 by (rule fst_bnd)
  have a6: "fst (?A6 s) = Inr 0" for s :: "unit state"
    using refusing_authenticate a5 by (rule fst_bnd)
  have a7: "fst (?A7 s) = Inr 0" for s :: "unit state"
    using sq a6 by (rule fst_bnd)
  have asked: "fst (try_except (bnd (lift (Inr ''DELETE'')) (\<lambda>confirm. ret (confirm = ''DELETE'')))
         (\<lambda>e. e = EOFError \<or> e = KeyboardInterrupt) (\<lambda>e. ret False) s) = Inr True"
    for s :: "unit state"
    by (simp add: try_except_def bnd_def lift_def ret_def)
  have tried: "fst (try_except (bnd (authenticate ?srv) (\<lambda>_. ret True)) is_Exception
         (\<lambda>e. ret False) s) = Inr True" for s :: "unit state"
    using refusing_authenticate [of s]
    by (cases "authenticate ?srv s") (simp add: try_except_def bnd_def ret_def)
  have "fst (bnd (try_except (bnd (authenticate ?srv) (\<lambda>_. ret True)) is_Exception
         (\<lambda>e. ret False)) (\<lambda>authenticated. if \<not> authenticated then ret 1 else ?A7) s) = Inr 0"
    for s :: "unit state"
    by (rule fst_bnd [OF tried]) (simp add: a7)
  then have "fst (bnd (try_except (bnd (lift (Inr ''DELETE'')) (\<lambda>confirm. ret (confirm = ''DELETE'')))
         (\<lambda>e. e = EOFError \<or> e = KeyboardInterrupt) (\<lambda>e. ret False))
       (\<lambda>confirmed. if \<not> confirmed then ret 1
          else bnd (try_except (bnd (authenticate ?srv) (\<lambda>_. ret True)) is_Exception
         (\<lambda>e. ret False)) (\<lambda>authenticated. if \<not> authenticated then ret 1 else ?A7)) s) = Inr 0"
    by (intro fst_bnd [OF asked]) simp
  then show ?thesis
    unfolding delete_infrastructure_def reservation_progs building_progs area_progs .
qed


lemma stable_insecure: "stable (\<lambda>rq. \<not> req_verify rq) C (insecure_since n)"
  by (auto simp: stable_def insecure_since_def)

lemma allows_insecure: "allows k (\<lambda>rq. \<not> req_verify rq)"
  by (simp add: allows_def)

lemma main_insecure:
  "list_all (\<lambda>rq. \<not> req_verify rq) (reqs (snd (main srv act file inp (s\<lparr>reqs := []\<rparr>))))"
proof -
  have m: "sends (\<lambda>rq. \<not> req_verify rq) (\<lambda>c. True) (main srv act file inp)"
    by (intro sends_main allows_insecure) simp
  have i: "insecure_since 0 (s\<lparr>reqs := []\<rparr>)"
    by (simp add: insecure_since_def)
  have "insecure_since 0 (snd (main srv act file inp (s\<lparr>reqs := []\<rparr>)))"
    using m stable_insecure i by (rule sendsD)
  then show ?thesis
    by (simp add: insecure_since_def)
qed

lemma load_ignores_insecure:
  assumes "\<forall>k. k \<noteq> ''CC_INSECURE'' \<longrightarrow> map_of kvs1 k = map_of kvs2 k"
  shows "map_option (\<lambda>c. (cfg_base_url c, cfg_username c, cfg_password c))
           (load_credentials_from_yaml (Document (JObj kvs1))) =
         map_option (\<lambda>c. (cfg_base_url c, cfg_username c, cfg_password c))
           (load_credentials_from_yaml (Document (JObj kvs2)))"
proof -
  have "map_of kvs1 ''CC_IP'' = map_of kvs2 ''CC_IP''"
       "map_of kvs1 ''CC_USERNAME'' = map_of kvs2 ''CC_USERNAME''"
       "map_of kvs1 ''CC_PASSWORD'' = map_of kvs2 ''CC_PASSWORD''"
    using assms by simp_all
  then show ?thesis
    by (simp add: load_credentials_from_yaml_def split: option.splits)
qed

lemma main_reads_three_fields:
  "map_option (\<lambda>c. (cfg_base_url c, cfg_username c, cfg_password c))
     (load_credentials_from_yaml file1) =
   map_option (\<lambda>c. (cfg_base_url c, cfg_username c, cfg_password c))
     (load_credentials_from_yaml file2) \<Longrightarrow>
   main srv act file1 inp = main srv act file2 inp"
  by (cases "load_credentials_from_yaml file1"; cases "load_credentials_from_yaml file2")
     (simp_all add: main_def)

text \<open>
  C6. Whatever the controller answers and however the run ends, the delete calls that
  \<open>delete_infrastructure\<close> has made are an initial segment of this list: the sixteen
  reservation deletions of the fixed topology, then six rounds of floor deletions, then
  the four building deletions, then the deletions of the four areas below
  \<open>United States\<close>, then the deletion of \<open>United States\<close>. So a floor deletion is attempted
  only after every reservation deletion has been attempted, a building deletion only after
  the floor deletions, an area deletion only after every building deletion, and
  \<open>United States\<close> only after the areas below it. A run that returns 0 has made all of
  these calls; a run that returns 1 (the confirmation was not given, or the
  authentication after it failed) has made none; no other number is returned.
\<close>

theorem delete_infrastructure_order:
  "\<exists>rounds rest.
     length rounds = 6 \<and> set rounds \<subseteq> floor_rounds \<and>
     calls (snd (delete_infrastructure srv inp (s\<lparr>calls := []\<rparr>))) @ rest =
       reservation_calls @ concat rounds @ building_calls @ area_calls \<and>
     (\<forall>v. fst (delete_infrastructure srv inp (s\<lparr>calls := []\<rparr>)) = Inr v \<longrightarrow>
          v = 0 \<and> rest = [] \<or>
          v = 1 \<and> calls (snd (delete_infrastructure srv inp (s\<lparr>calls := []\<rparr>))) = [])"
proof -
  let ?r = "delete_infrastructure srv inp (s\<lparr>calls := []\<rparr>)"
  let ?T = "\<lambda>l. \<exists>rounds. length rounds = 6 \<and> set rounds \<subseteq> floor_rounds \<and>
            l = reservation_calls @ concat rounds @ building_calls @ area_calls"
  have "\<exists>cs. calls (snd ?r) = calls (s\<lparr>calls := []\<rparr>) @ cs \<and>
      (case fst ?r of Inl e \<Rightarrow> (\<exists>rest. ?T (cs @ rest))
       | Inr v \<Rightarrow> v = 1 \<and> cs = [] \<or> v = 0 \<and> ?T cs)"
    using adds_delete_infrastructure [of srv inp] unfolding adds_def by blast
  then obtain cs where c: "calls (snd ?r) = cs"
      and d: "case fst ?r of Inl e \<Rightarrow> (\<exists>rest. ?T (cs @ rest))
              | Inr v \<Rightarrow> v = 1 \<and> cs = [] \<or> v = 0 \<and> ?T cs"
    by auto
  have ok0: "length (replicate 6 [DeleteSite ''FLOOR_1'']) = 6 \<and>
      set (replicate 6 [DeleteSite ''FLOOR_1'']) \<subseteq> floor_rounds"
    by (auto simp: floor_rounds_def)
  show ?thesis
  proof (cases "fst ?r")
    case (Inl e)
    then obtain rounds rest where "length rounds = 6" "set rounds \<subseteq> floor_rounds"
        "cs @ rest = reservation_calls @ concat rounds @ building_calls @ area_calls"
      using d by auto
    then show ?thesis
      using Inl c by auto
  next
    case (Inr v)
    then consider "v = 1" "cs = []" | "v = 0" "?T cs"
      using d by auto
    then show ?thesis
    proof cases
      case 1
      have "cs @ (reservation_calls @ concat (replicate 6 [DeleteSite ''FLOOR_1'']) @
              building_calls @ area_calls) =
            reservation_calls @ concat (replicate 6 [DeleteSite ''FLOOR_1'']) @
              building_calls @ area_calls"
        using 1 by simp
      then have "length (replicate 6 [DeleteSite ''FLOOR_1'']) = 6 \<and>
          set (replicate 6 [DeleteSite ''FLOOR_1'']) \<subseteq> floor_rounds \<and>
          calls (snd ?r) @ (reservation_calls @ concat (replicate 6 [DeleteSite ''FLOOR_1'']) @
              building_calls @ area_calls) =
            reservation_calls @ concat (replicate 6 [DeleteSite ''FLOOR_1'']) @
              building_calls @ area_calls \<and>
          (\<forall>v. fst ?r = Inr v \<longrightarrow>
             v = 0 \<and> reservation_calls @ concat (replicate 6 [DeleteSite ''FLOOR_1'']) @
              building_calls @ area_calls = [] \<or> v = 1 \<and> calls (snd ?r) = [])"
        using ok0 Inr 1 c by simp
      then show ?thesis
        by blast
    next
      case 2
      then obtain rounds where "length rounds = 6" "set rounds \<subseteq> floor_rounds"
          "cs @ [] = reservation_calls @ concat rounds @ building_calls @ area_calls"
        by auto
      then have "length rounds = 6 \<and> set rounds \<subseteq> floor_rounds \<and>
          calls (snd ?r) @ [] = reservation_calls @ concat rounds @ building_calls @ area_calls \<and>
          (\<forall>v. fst ?r = Inr v \<longrightarrow> v = 0 \<and> [] = ([] :: call list) \<or> v = 1 \<and> calls (snd ?r) = [])"
        using Inr 2 c by simp
      then show ?thesis
        by blast
    qed
  qed
qed


theorem delete_infrastructure_order_witness:
  "fst (delete_infrastructure refusing_server (Inr ''DELETE'') (world () 0)) = Inr 0 \<and>
   (\<exists>rounds. length rounds = 6 \<and> set rounds \<subseteq> floor_rounds \<and>
      calls (snd (delete_infrastructure refusing_server (Inr ''DELETE'') (world () 0))) =
        reservation_calls @ concat rounds @ building_calls @ area_calls) \<and>
   fst (delete_infrastructure refusing_server (Inr ''no'') (world () 0)) = Inr 1 \<and>
   calls (snd (delete_infrastructure refusing_server (Inr ''no'') (world () 0))) = []"
proof -
  have w: "world () 0 = (world () 0 :: unit state)\<lparr>calls := []\<rparr>"
    by (simp add: world_def)
  have no: "fst (delete_infrastructure refusing_server (Inr ''no'') (world () 0)) = Inr 1"
    by (simp add: delete_infrastructure_def try_except_def bnd_def lift_def ret_def)
  have yes: "fst (delete_infrastructure refusing_server (Inr ''DELETE'') (world () 0)) = Inr 0"
    by (rule refusing_teardown)
  show ?thesis
    using delete_infrastructure_order [of refusing_server "Inr ''DELETE''" "world () 0"]
      delete_infrastructure_order [of refusing_server "Inr ''no''" "world () 0"]
    unfolding w [symmetric] yes no by auto
qed

text \<open>
  C9. Every request of a run of the command line, whatever the action and the
  configuration file, is sent with \<^verbatim>\<open>verify=False\<close>, and so is every request of
  \<open>delete_global_pool\<close>, which no driver calls. Two configuration files that differ in
  \<open>CC_INSECURE\<close> only give the same run: the same result, the same requests.
\<close>

theorem requests_never_verified:
  "list_all (\<lambda>rq. \<not> req_verify rq) (reqs (snd (main srv act file inp (s\<lparr>reqs := []\<rparr>)))) \<and>
   list_all (\<lambda>rq. \<not> req_verify rq)
     (reqs (snd (delete_global_pool srv pool_name (s\<lparr>reqs := []\<rparr>)))) \<and>
   ((\<forall>k. k \<noteq> ''CC_INSECURE'' \<longrightarrow> map_of kvs1 k = map_of kvs2 k) \<longrightarrow>
      main srv act (Document (JObj kvs1)) inp = main srv act (Document (JObj kvs2)) inp)"
proof -
  have p: "sends (\<lambda>rq. \<not> req_verify rq) (\<lambda>c. True) (delete_global_pool srv pool_name)"
    by (intro sends_delete_global_pool allows_insecure)
  have i: "insecure_since 0 (s\<lparr>reqs := []\<rparr>)"
    by (simp add: insecure_since_def)
  have "insecure_since 0 (snd (delete_global_pool srv pool_name (s\<lparr>reqs := []\<rparr>)))"
    using p stable_insecure i by (rule sendsD)
  then have "list_all (\<lambda>rq. \<not> req_verify rq)
     (reqs (snd (delete_global_pool srv pool_name (s\<lparr>reqs := []\<rparr>))))"
    by (simp add: insecure_since_def)
  then show ?thesis
    using main_insecure [of srv act "file" inp s]
      main_reads_three_fields [OF load_ignores_insecure, of kvs1 kvs2 srv act inp]
    by blast
qed

theorem requests_never_verified_witness:
  "map_option cfg_verify_ssl
     (load_credentials_from_yaml (Document (JObj (demo_config (JBool True))))) = Some False \<and>
   map_option cfg_verify_ssl
     (load_credentials_from_yaml (Document (JObj (demo_config (JBool False))))) = Some True \<and>
   main unreachable_server Status (Document (JObj (demo_config (JBool True)))) (Inr [])
     = main unreachable_server Status (Document (JObj (demo_config (JBool False)))) (Inr []) \<and>
   length (reqs (snd (main unreachable_server Status
      (Document (JObj (demo_config (JBool False)))) (Inr []) (world () 0)))) = 1 \<and>
   list_all (\<lambda>rq. \<not> req_verify rq)
     (reqs (snd (main unreachable_server Status
        (Document (JObj (demo_config (JBool False)))) (Inr []) (world () 0))))"
proof -
  have same: "\<forall>k. k \<noteq> ''CC_INSECURE'' \<longrightarrow>
      map_of (demo_config (JBool True)) k = map_of (demo_config (JBool False)) k"
    by (simp add: demo_config_def)
  have w: "world () 0 = (world () 0 :: unit state)\<lparr>reqs := []\<rparr>"
    by (simp add: world_def)
  have l: "load_credentials_from_yaml (Document (JObj (demo_config flag))) =
      Some \<lparr>cfg_base_url = [JStr ''https://'', JStr ''198.18.129.100''],
            cfg_username = JStr ''admin'', cfg_password = JStr ''secret'',
            cfg_verify_ssl = \<not> truthy flag\<rparr>" for flag
    by (simp add: load_credentials_from_yaml_def demo_config_def)
  have n: "length (reqs (snd (main unreachable_server Status
      (Document (JObj (demo_config (JBool False)))) (Inr []) (world () 0)))) = 1"
    by (simp add: main_def l CatalystCenterAPI_def bnd_def try_except_def authenticate_def
          endpoint_def gets_def ret_def http_def unreachable_server_def world_def is_Exception_def)
  show ?thesis
    using requests_never_verified [of unreachable_server Status
        "Document (JObj (demo_config (JBool False)))" "Inr []" "world () 0" "[]"
        "demo_config (JBool True)" "demo_config (JBool False)"] same n
    by (simp add: l w [symmetric])
qed

end
